theory Spec2Isabelle
  imports Complex_Main
begin

unbundle bit_operations_syntax

section \<open>JavaScript strings and regular expressions\<close>

text \<open>
  A JavaScript string is modelled as a \<open>string\<close>, a list of code units. The model covers
  the code units \<open>0x00\<close> to \<open>0xFF\<close>; of the line terminators and white space of
  ECMAScript it therefore has those below \<open>0x100\<close>.

  The regular expression literals of \<open>PackageManager.js\<close> are written as terms of
  \<open>rx\<close>. Matching follows the backtracking matcher of the ECMAScript specification:
  \<open>ms r ic ml s st\<close> lists every way \<open>r\<close> can match \<open>s\<close> from the state \<open>st\<close>, in the
  order in which backtracking tries them, so that the head of the list is the match that
  JavaScript reports.
\<close>

datatype rx =
    Lit char              \<comment> \<open>a pattern character\<close>
  | OneOf "char list"     \<comment> \<open>\<open>[...]\<close>\<close>
  | NoneOf "char list"    \<comment> \<open>\<open>[^...]\<close>\<close>
  | AnyCh                 \<comment> \<open>\<open>.\<close>\<close>
  | Space                 \<comment> \<open>\<open>\s\<close>\<close>
  | Bol                   \<comment> \<open>\<open>^\<close>\<close>
  | Eol                   \<comment> \<open>\<open>$\<close>\<close>
  | WordB                 \<comment> \<open>\<open>\b\<close>\<close>
  | Emp                   \<comment> \<open>the empty pattern\<close>
  | Seq rx rx
  | Alt rx rx             \<comment> \<open>\<open>a|b\<close>\<close>
  | Star rx               \<comment> \<open>\<open>a*\<close>, greedy\<close>
  | LazyStar rx           \<comment> \<open>\<open>a*?\<close>\<close>
  | Grp nat rx            \<comment> \<open>the capturing group with the given number\<close>

text \<open>\<open>a+\<close> is one \<open>a\<close> and then \<open>a*\<close>; \<open>a?\<close> tries \<open>a\<close> and then the empty pattern
  (no \<open>a\<close> under a \<open>?\<close> in this program can match the empty string).\<close>

definition Plus :: "rx \<Rightarrow> rx" where
  "Plus a = Seq a (Star a)"

definition Opt :: "rx \<Rightarrow> rx" where
  "Opt a = Alt a Emp"

text \<open>The parts of a pattern, one after the other, and a literal text.\<close>

fun Cat :: "rx list \<Rightarrow> rx" where
  "Cat [] = Emp"
| "Cat (a # as) = Seq a (Cat as)"

definition Str :: "string \<Rightarrow> rx" where
  "Str cs = Cat (map Lit cs)"

record regex =
  pat :: rx
  global :: bool
  ignoreCase :: bool
  multiline :: bool

text \<open>A match state is the current position and the captures made so far, the latest
  first: \<open>(k, i, j)\<close> says that group \<open>k\<close> captured the code units from \<open>i\<close> up to \<open>j\<close>.\<close>

type_synonym captures = "(nat \<times> nat \<times> nat) list"
type_synonym mstate = "nat \<times> captures"

definition isLineTerminator :: "char \<Rightarrow> bool" where
  "isLineTerminator c = (c = CHR 0x0A \<or> c = CHR 0x0D)"

definition isWhiteSpace :: "char \<Rightarrow> bool" where
  "isWhiteSpace c = (c \<in> set [CHR 0x09, CHR 0x0A, CHR 0x0B, CHR 0x0C, CHR 0x0D, CHR 0x20, CHR 0xA0])"

definition isWordChar :: "char \<Rightarrow> bool" where
  "isWordChar c = (let n = (of_char c :: nat) in
     (97 \<le> n \<and> n \<le> 122) \<or> (65 \<le> n \<and> n \<le> 90) \<or> (48 \<le> n \<and> n \<le> 57) \<or> n = 95)"

text \<open>Canonicalize of the specification, for the flag \<open>i\<close>: the upper case of a code
  unit. Every pattern character of this program is ASCII, and a code unit from \<open>0x80\<close> on is
  never canonicalized to an ASCII one, so only the ASCII letters matter.\<close>

definition canonicalize :: "bool \<Rightarrow> char \<Rightarrow> char" where
  "canonicalize ic c = (let n = (of_char c :: nat) in
     if ic \<and> 97 \<le> n \<and> n \<le> 122 then char_of (n - 32) else c)"

definition isWordAt :: "string \<Rightarrow> int \<Rightarrow> bool" where
  "isWordAt s i = (0 \<le> i \<and> i < int (length s) \<and> isWordChar (s ! nat i))"

definition one_char :: "(char \<Rightarrow> bool) \<Rightarrow> string \<Rightarrow> mstate \<Rightarrow> mstate list" where
  "one_char P s st = (if fst st < length s \<and> P (s ! fst st) then [(Suc (fst st), snd st)] else [])"

definition assertion :: "bool \<Rightarrow> mstate \<Rightarrow> mstate list" where
  "assertion b st = (if b then [st] else [])"

text \<open>The iterations of a star. An iteration that does not advance is rejected, as the
  specification's RepeatMatcher does, so a star makes at most \<open>length s - pos\<close> iterations
  and the counter \<open>n\<close>, started there, never cuts a match short (\<open>star_fuel\<close> below).\<close>

primrec iter :: "bool \<Rightarrow> (mstate \<Rightarrow> mstate list) \<Rightarrow> nat \<Rightarrow> mstate \<Rightarrow> mstate list" where
  "iter greedy f 0 st = [st]"
| "iter greedy f (Suc n) st =
     (let more = concat (map (iter greedy f n) (filter (\<lambda>st'. fst st < fst st') (f st)))
      in if greedy then more @ [st] else st # more)"

primrec ms :: "rx \<Rightarrow> bool \<Rightarrow> bool \<Rightarrow> string \<Rightarrow> mstate \<Rightarrow> mstate list" where
  "ms (Lit c) ic ml s st = one_char (\<lambda>d. canonicalize ic d = canonicalize ic c) s st"
| "ms (OneOf cs) ic ml s st =
     one_char (\<lambda>d. canonicalize ic d \<in> set (map (canonicalize ic) cs)) s st"
| "ms (NoneOf cs) ic ml s st =
     one_char (\<lambda>d. canonicalize ic d \<notin> set (map (canonicalize ic) cs)) s st"
| "ms AnyCh ic ml s st = one_char (\<lambda>d. \<not> isLineTerminator d) s st"
| "ms Space ic ml s st = one_char isWhiteSpace s st"
| "ms Bol ic ml s st =
     assertion (fst st = 0 \<or> (ml \<and> fst st \<le> length s \<and> isLineTerminator (s ! (fst st - 1)))) st"
| "ms Eol ic ml s st =
     assertion (fst st = length s \<or> (ml \<and> fst st < length s \<and> isLineTerminator (s ! fst st))) st"
| "ms WordB ic ml s st =
     assertion (isWordAt s (int (fst st) - 1) \<noteq> isWordAt s (int (fst st))) st"
| "ms Emp ic ml s st = [st]"
| "ms (Seq a b) ic ml s st = concat (map (ms b ic ml s) (ms a ic ml s st))"
| "ms (Alt a b) ic ml s st = ms a ic ml s st @ ms b ic ml s st"
| "ms (Star a) ic ml s st = iter True (ms a ic ml s) (length s - fst st) st"
| "ms (LazyStar a) ic ml s st = iter False (ms a ic ml s) (length s - fst st) st"
| "ms (Grp k a) ic ml s st =
     map (\<lambda>st'. (fst st', (k, fst st, fst st') # snd st')) (ms a ic ml s st)"

text \<open>A pattern without capturing groups.\<close>

fun no_grp :: "rx \<Rightarrow> bool" where
  "no_grp (Seq a b) = (no_grp a \<and> no_grp b)"
| "no_grp (Alt a b) = (no_grp a \<and> no_grp b)"
| "no_grp (Star a) = no_grp a"
| "no_grp (LazyStar a) = no_grp a"
| "no_grp (Grp k a) = False"
| "no_grp r = True"

text \<open>The result of a successful match: where it starts and ends, and its captures.\<close>

record rmatch =
  m_index :: nat
  m_end :: nat
  m_caps :: captures

text \<open>The search of \<open>RegExp.prototype.exec\<close>: the first start position from \<open>i\<close> on, up to
  and including the end of the string, at which the pattern matches.\<close>

fun first_match :: "regex \<Rightarrow> string \<Rightarrow> nat list \<Rightarrow> rmatch option" where
  "first_match re s [] = None"
| "first_match re s (i # is) =
     (case ms (pat re) (ignoreCase re) (multiline re) s (i, []) of
        [] \<Rightarrow> first_match re s is
      | st # _ \<Rightarrow> Some \<lparr>m_index = i, m_end = fst st, m_caps = snd st\<rparr>)"

definition rx_exec :: "regex \<Rightarrow> string \<Rightarrow> nat \<Rightarrow> rmatch option" where
  "rx_exec re s i = first_match re s [i ..< Suc (length s)]"

definition substring :: "string \<Rightarrow> nat \<Rightarrow> nat \<Rightarrow> string" where
  "substring s i j = take (j - i) (drop i s)"

text \<open>\<open>m[k]\<close>: the text of group \<open>k\<close>, \<open>None\<close> for \<open>undefined\<close>; \<open>m[0]\<close> is the whole match.\<close>

definition group :: "string \<Rightarrow> rmatch \<Rightarrow> nat \<Rightarrow> string option" where
  "group s m k =
     (if k = 0 then Some (substring s (m_index m) (m_end m))
      else map_option (\<lambda>(i, j). substring s i j) (map_of (m_caps m) k))"


subsection \<open>Matching never moves backwards\<close>

lemma iter_mono:
  assumes f: "\<And>st st'. st' \<in> set (f st) \<Longrightarrow> fst st \<le> fst st'"
  shows "st' \<in> set (iter g f n st) \<Longrightarrow> fst st \<le> fst st'"
proof (induction n arbitrary: st)
  case 0
  then show ?case by simp
next
  case (Suc n)
  from Suc.prems have "st' = st \<or> (\<exists>st1 \<in> set (f st). fst st < fst st1 \<and> st' \<in> set (iter g f n st1))"
    by (auto simp: Let_def split: if_splits)
  then show ?case
  proof
    assume "st' = st" then show ?thesis by simp
  next
    assume "\<exists>st1 \<in> set (f st). fst st < fst st1 \<and> st' \<in> set (iter g f n st1)"
    then obtain st1 where "fst st < fst st1" "st' \<in> set (iter g f n st1)" by blast
    with Suc.IH [of st1] show ?thesis by simp
  qed
qed
lemma ms_mono: "st' \<in> set (ms r ic ml s st) \<Longrightarrow> fst st \<le> fst st'"
proof (induction r arbitrary: st st')
  case (Seq a b)
  from Seq.prems obtain st1 where "st1 \<in> set (ms a ic ml s st)" "st' \<in> set (ms b ic ml s st1)"
    by auto
  then have "fst st \<le> fst st1" "fst st1 \<le> fst st'"
    using Seq.IH by blast+
  then show ?case by simp
next
  case (Alt a b)
  from Alt.prems have "st' \<in> set (ms a ic ml s st) \<or> st' \<in> set (ms b ic ml s st)" by simp
  then show ?case using Alt.IH by blast
next
  case (Star a)
  then show ?case using iter_mono [of "ms a ic ml s" st' True] by simp
next
  case (LazyStar a)
  then show ?case using iter_mono [of "ms a ic ml s" st' False] by simp
next
  case (Grp k a)
  from Grp.prems obtain st1 where "st1 \<in> set (ms a ic ml s st)" "fst st' = fst st1"
    by auto
  then show ?case using Grp.IH [of st1 st] by simp
qed (simp_all add: one_char_def assertion_def split: if_splits)

lemma first_match_range:
  "first_match re s is = Some m \<Longrightarrow> m_index m \<in> set is \<and> m_index m \<le> m_end m"
proof (induction "is")
  case Nil
  then show ?case by simp
next
  case (Cons i "is")
  show ?case
  proof (cases "ms (pat re) (ignoreCase re) (multiline re) s (i, [])")
    case Nil
    with Cons show ?thesis by simp
  next
    case (Cons st sts)
    then have "st \<in> set (ms (pat re) (ignoreCase re) (multiline re) s (i, []))" by simp
    then have "i \<le> fst st" using ms_mono [of st _ _ _ _ "(i, [])"] by simp
    moreover from Cons Cons.prems have "m = \<lparr>m_index = i, m_end = fst st, m_caps = snd st\<rparr>"
      by simp
    ultimately show ?thesis by simp
  qed
qed

lemma rx_exec_range:
  "rx_exec re s i = Some m \<Longrightarrow> i \<le> m_index m \<and> m_index m \<le> length s \<and> m_index m \<le> m_end m"
proof -
  assume "rx_exec re s i = Some m"
  then have "m_index m \<in> set [i ..< Suc (length s)]" "m_index m \<le> m_end m"
    using first_match_range [of re s "[i ..< Suc (length s)]" m] by (simp_all add: rx_exec_def)
  then show ?thesis by auto
qed

subsection \<open>The string methods that take a regular expression\<close>

text \<open>Every match of a global regular expression, as \<open>String.prototype.replace\<close> finds
  them: \<open>lastIndex\<close> moves to the end of each match, and one further after an empty match.\<close>

function all_matches :: "regex \<Rightarrow> string \<Rightarrow> nat \<Rightarrow> rmatch list" where
  "all_matches re s i =
     (case rx_exec re s i of
        None \<Rightarrow> []
      | Some m \<Rightarrow> m # all_matches re s (if m_end m = m_index m then Suc (m_end m) else m_end m))"
  by pat_completeness auto
termination
proof (relation "measure (\<lambda>(re, s, i). Suc (length s) - i)", goal_cases)
  case 1
  show ?case by simp
next
  case (2 re s i m)
  then have "i \<le> m_index m" "m_index m \<le> length s" "m_index m \<le> m_end m"
    using rx_exec_range [of re s i m] by simp_all
  then show ?case by (simp split: if_splits) arith
qed

declare all_matches.simps [simp del]

text \<open>A replacement string is kept as its parts: literal text and \<open>$k\<close>, the text of
  group \<open>k\<close> (empty when the group did not take part in the match).\<close>

datatype rpart = RText string | RGroup nat

fun expand :: "string \<Rightarrow> rmatch \<Rightarrow> rpart list \<Rightarrow> string" where
  "expand s m [] = []"
| "expand s m (RText t # ps) = t @ expand s m ps"
| "expand s m (RGroup k # ps) = (case group s m k of None \<Rightarrow> [] | Some t \<Rightarrow> t) @ expand s m ps"

text \<open>\<open>splice s repl p found\<close> copies \<open>s\<close> from position \<open>p\<close> on, with each match of
  \<open>found\<close> replaced.\<close>

fun splice :: "string \<Rightarrow> rpart list \<Rightarrow> nat \<Rightarrow> rmatch list \<Rightarrow> string" where
  "splice s repl p [] = drop p s"
| "splice s repl p (m # found) =
     substring s p (m_index m) @ expand s m repl @ splice s repl (m_end m) found"

text \<open>\<open>s.replace(re, repl)\<close>: every match when \<open>re\<close> is global, else the first one.\<close>

definition js_replace :: "string \<Rightarrow> regex \<Rightarrow> rpart list \<Rightarrow> string" where
  "js_replace s re repl =
     (if global re then splice s repl 0 (all_matches re s 0)
      else (case rx_exec re s 0 of None \<Rightarrow> s | Some m \<Rightarrow> splice s repl 0 [m]))"

text \<open>\<open>s.match(re)\<close> for a regular expression that is not global.\<close>

definition js_match :: "string \<Rightarrow> regex \<Rightarrow> rmatch option" where
  "js_match s re = rx_exec re s 0"

text \<open>\<open>s.split(re)\<close>, the loop of the specification: \<open>p\<close> is the start of the current piece
  and \<open>q\<close> the position at which a separator is tried. (No separator of this program has
  a capturing group, whose text \<open>split\<close> would add to the result.)\<close>

function split_loop :: "regex \<Rightarrow> string \<Rightarrow> nat \<Rightarrow> nat \<Rightarrow> string list" where
  "split_loop re s p q =
     (if q < length s then
        (case ms (pat re) (ignoreCase re) (multiline re) s (q, []) of
           [] \<Rightarrow> split_loop re s p (Suc q)
         | st # _ \<Rightarrow>
            (let e = min (fst st) (length s) in
             if e = p then split_loop re s p (Suc q)
             else substring s p q # split_loop re s e e))
      else [substring s p (length s)])"
  by pat_completeness auto
termination
proof (relation "measures [\<lambda>(re, s, p, q). length s - q, \<lambda>(re, s, p, q). if p = q then 0 else 1]",
    goal_cases)
  case 1
  show ?case by simp
next
  case (2 re s p q)
  then show ?case by auto
next
  case (3 re s p q st sts e)
  then show ?case by auto
next
  case (4 re s p q st sts e)
  then have "st \<in> set (ms (pat re) (ignoreCase re) (multiline re) s (q, []))" by simp
  then have "q \<le> fst st" using ms_mono by fastforce
  with 4 have "q \<le> e" "e \<le> length s" "e \<noteq> p" "q < length s" by simp_all
  then show ?case by (cases "e = q") auto
qed

declare split_loop.simps [simp del]

definition js_split :: "string \<Rightarrow> regex \<Rightarrow> string list" where
  "js_split s re =
     (if s = [] then
        (case ms (pat re) (ignoreCase re) (multiline re) s (0, []) of
           [] \<Rightarrow> [s]
         | _ \<Rightarrow> [])
      else split_loop re s 0 0)"

text \<open>\<open>s.charAt(i)\<close> and \<open>s.substr(i)\<close>.\<close>

definition charAt :: "string \<Rightarrow> nat \<Rightarrow> string" where
  "charAt s i = (if i < length s then [s ! i] else [])"

definition substr :: "string \<Rightarrow> nat \<Rightarrow> string" where
  "substr s i = drop i s"


section \<open>Values, the host and the state\<close>

text \<open>
  A JavaScript value as \<open>JSON.parse\<close> gives it. An array is an object too: besides its
  elements it has named properties (none after \<open>JSON.parse\<close>), which \<open>JSON.stringify\<close> does
  not write. An object is the list of its own keys and values. \<open>undefined\<close> is \<open>None\<close> of
  \<open>jsval option\<close>.
\<close>

datatype jsval =
    JNull
  | JBool bool
  | JNum real
  | JStr string
  | JArr "jsval list" "(string \<times> jsval) list"
  | JObj "(string \<times> jsval) list"

text \<open>\<open>!v\<close> and \<open>typeof v\<close>.\<close>

fun falsy :: "jsval option \<Rightarrow> bool" where
  "falsy None = True"
| "falsy (Some JNull) = True"
| "falsy (Some (JBool b)) = (\<not> b)"
| "falsy (Some (JNum x)) = (x = 0)"
| "falsy (Some (JStr s)) = (s = [])"
| "falsy (Some (JArr xs ps)) = False"
| "falsy (Some (JObj kvs)) = False"

fun typeof :: "jsval option \<Rightarrow> string" where
  "typeof None = ''undefined''"
| "typeof (Some JNull) = ''object''"
| "typeof (Some (JBool b)) = ''boolean''"
| "typeof (Some (JNum x)) = ''number''"
| "typeof (Some (JStr s)) = ''string''"
| "typeof (Some (JArr xs ps)) = ''object''"
| "typeof (Some (JObj kvs)) = ''object''"

text \<open>
  The own properties of an object are listed in the order in which \<open>for (k in o)\<close> visits
  them: first the keys that are array indices (a decimal number below \<open>2^32 - 1\<close>, written
  without leading zeros) in ascending order, then the other keys in the order in which
  they were added. \<open>index_less\<close> compares two such numbers by their digits.
\<close>

definition is_digit :: "char \<Rightarrow> bool" where
  "is_digit c = (48 \<le> (of_char c :: nat) \<and> (of_char c :: nat) \<le> 57)"

fun lex_less :: "string \<Rightarrow> string \<Rightarrow> bool" where
  "lex_less (x # xs) (y # ys) =
     ((of_char x :: nat) < of_char y \<or> (x = y \<and> lex_less xs ys))"
| "lex_less xs ys = False"

definition index_less :: "string \<Rightarrow> string \<Rightarrow> bool" where
  "index_less a b = (length a < length b \<or> (length a = length b \<and> lex_less a b))"

definition is_index :: "string \<Rightarrow> bool" where
  "is_index k =
     (k \<noteq> [] \<and> list_all is_digit k \<and> (k = ''0'' \<or> take 1 k \<noteq> ''0'')
      \<and> index_less k ''4294967295'')"

fun replace_value :: "string \<Rightarrow> jsval \<Rightarrow> (string \<times> jsval) list \<Rightarrow> (string \<times> jsval) list" where
  "replace_value k v [] = []"
| "replace_value k v ((k', v') # kvs) =
     (if k' = k then (k, v) # kvs else (k', v') # replace_value k v kvs)"

fun insert_index :: "string \<Rightarrow> jsval \<Rightarrow> (string \<times> jsval) list \<Rightarrow> (string \<times> jsval) list" where
  "insert_index k v [] = [(k, v)]"
| "insert_index k v ((k', v') # kvs) =
     (if is_index k' \<and> index_less k' k then (k', v') # insert_index k v kvs
      else (k, v) # (k', v') # kvs)"

text \<open>
  \<open>o[k] = v\<close> on the own properties of an object whose prototype chain ends in
  \<open>Object.prototype\<close>, as every object of this program does. The value of an own key is
  replaced in place. A new key is added, an array index at its place among the indices and
  any other key at the end. The key \<open>__proto__\<close> is the exception: when it is not an own
  key, the assignment runs the setter that \<open>Object.prototype\<close> has for it, which changes
  the prototype of the object or does nothing, and adds no own property. (\<open>JSON.parse\<close>
  does make \<open>__proto__\<close> an own key of what it returns.) The prototype of an object is not
  part of its value here.
\<close>

definition put :: "string \<Rightarrow> jsval \<Rightarrow> (string \<times> jsval) list \<Rightarrow> (string \<times> jsval) list" where
  "put k v kvs =
     (if map_of kvs k \<noteq> None then replace_value k v kvs
      else if k = ''__proto__'' then kvs
      else if is_index k then insert_index k v kvs
      else kvs @ [(k, v)])"

text \<open>
  Reading and writing a property by a name such as \<open>appID\<close> or \<open>title\<close>, which no string,
  number or boolean has and which is no index of an array. On \<open>null\<close> both throw a
  TypeError. The file is not in strict mode, so writing a property of a string, a number
  or a boolean does nothing.
\<close>

datatype js_error = TypeError | SyntaxError

fun get_named :: "jsval \<Rightarrow> string \<Rightarrow> js_error + jsval option" where
  "get_named JNull k = Inl TypeError"
| "get_named (JObj kvs) k = Inr (map_of kvs k)"
| "get_named (JArr xs ps) k = Inr (map_of ps k)"
| "get_named v k = Inr None"

fun set_named :: "jsval \<Rightarrow> string \<Rightarrow> jsval \<Rightarrow> js_error + jsval" where
  "set_named JNull k v = Inl TypeError"
| "set_named (JObj kvs) k v = Inr (JObj (put k v kvs))"
| "set_named (JArr xs ps) k v = Inr (JArr xs (put k v ps))"
| "set_named u k v = Inr u"

text \<open>A natural number in base \<open>b\<close>, as \<open>Number.prototype.toString\<close> writes it, for the
  bases from 2 to 36 that it takes. The program uses the bases 10 and 16.\<close>

definition digit_char :: "nat \<Rightarrow> char" where
  "digit_char d = (if d < 36 then ''0123456789abcdefghijklmnopqrstuvwxyz'' ! d else CHR ''?'')"

function to_base :: "nat \<Rightarrow> nat \<Rightarrow> string" where
  "to_base b n =
     (if n < b \<or> b < 2 then [digit_char n] else to_base b (n div b) @ [digit_char (n mod b)])"
  by pat_completeness auto
termination
proof (relation "measure (\<lambda>(b, n). n)", goal_cases)
  case 1
  show ?case by simp
next
  case (2 b n)
  then show ?case by simp
qed

declare to_base.simps [simp del]

text \<open>The number that a string of decimal digits denotes.\<close>

definition to_number :: "string \<Rightarrow> nat" where
  "to_number a = foldl (\<lambda>n c. 10 * n + (of_char c - 48)) 0 a"


text \<open>
  What the program takes from its host: \<open>JSON.parse\<close> (\<open>None\<close> when it throws a
  SyntaxError), \<open>JSON.stringify\<close> with its indentation, \<open>path.join\<close>, and the random numbers:
  \<open>random16 h n\<close> is the integer part of the \<open>n\<close>-th \<open>Math.random() * 16\<close>, a number below 16.
\<close>

record host =
  JSON_parse :: "string \<Rightarrow> jsval option"
  JSON_stringify :: "jsval \<Rightarrow> string \<Rightarrow> string"
  path_join :: "string \<Rightarrow> string \<Rightarrow> string"
  random16 :: "nat \<Rightarrow> nat"

text \<open>
  The state: the files, the number of calls of \<open>Math.random\<close> so far, the writes that
  \<open>fs.writeFile\<close> has been asked for and that are still to happen, and the two fields of
  the package object, \<open>this.paths\<close> and \<open>this.manifest\<close>.
\<close>

record paths =
  p_root :: string
  p_shared :: string
  p_resources :: string
  p_icons :: string
  p_lang :: string
  p_manifest :: string

record state =
  files :: "string \<rightharpoonup> string"
  drawn :: nat
  pending :: "(string \<times> string) list"
  paths :: paths
  manifest :: "jsval option"

section \<open>The import parser and resolver\<close>

text \<open>\<open>/^\./\<close> and \<open>/[^.]+\.?$/\<close>, the two patterns of \<open>resolve\<close>.\<close>

definition leadingDot :: regex where
  "leadingDot = \<lparr>pat = Cat [Bol, Lit CHR ''.''],
     global = False, ignoreCase = False, multiline = False\<rparr>"

definition lastSegment :: regex where
  "lastSegment = \<lparr>pat = Cat [Plus (NoneOf ''.''), Opt (Lit CHR ''.''), Eol],
     global = False, ignoreCase = False, multiline = False\<rparr>"

lemma leadingDot_nonempty: "js_match cls leadingDot \<noteq> None \<Longrightarrow> cls \<noteq> []"
proof
  assume m: "js_match cls leadingDot \<noteq> None" and e: "cls = []"
  have "js_match [] leadingDot = None"
    by (simp add: js_match_def rx_exec_def leadingDot_def one_char_def assertion_def)
  with m e show False by simp
qed

text \<open>The loop of \<open>resolve\<close>: for each leading dot of \<open>cls\<close>, the last segment of \<open>rel2\<close> is
  dropped.\<close>

function resolve_loop :: "string \<Rightarrow> string \<Rightarrow> string" where
  "resolve_loop rel2 cls =
     (if js_match cls leadingDot \<noteq> None
      then resolve_loop (js_replace rel2 lastSegment []) (substr cls 1)
      else rel2 @ cls)"
  by pat_completeness auto
termination
proof (relation "measure (\<lambda>(rel2, cls). length cls)", goal_cases)
  case 1
  show ?case by simp
next
  case (2 rel2 cls)
  then have "cls \<noteq> []" using leadingDot_nonempty by blast
  then show ?case by (simp add: substr_def)
qed

declare resolve_loop.simps [simp del]

text \<open>\<open>rel\<close> is the base package path, \<open>None\<close> when the caller passes none; \<open>!rel\<close> holds for
  \<open>undefined\<close> and for the empty string.\<close>

definition resolve :: "string option \<Rightarrow> string \<Rightarrow> string" where
  "resolve rel cls =
     (case rel of
        None \<Rightarrow> cls
      | Some r \<Rightarrow> if r = [] \<or> charAt cls 0 \<noteq> ''.'' then cls else resolve_loop r cls)"

text \<open>\<open>importRegex\<close>, that is \<open>/^(\s*)(import|from)\s+(.*?)\s*;*$/gm\<close>. A match of it is never
  empty, so the loop of \<open>parseImports\<close> moves on with every match and ends.\<close>

definition importRegex :: regex where
  "importRegex = \<lparr>pat = Cat [Bol, Grp 1 (Star Space), Grp 2 (Alt (Str ''import'') (Str ''from'')),
       Plus Space, Grp 3 (LazyStar AnyCh), Star Space, Star (Lit CHR '';''), Eol],
     global = True, ignoreCase = False, multiline = True\<rparr>"

lemma ms_Seq_mem:
  "st' \<in> set (ms (Seq a b) ic ml s st) \<longleftrightarrow>
     (\<exists>st1 \<in> set (ms a ic ml s st). st' \<in> set (ms b ic ml s st1))"
  by auto

lemma ms_Grp_mem:
  "st' \<in> set (ms (Grp k a) ic ml s st) \<Longrightarrow> \<exists>st1 \<in> set (ms a ic ml s st). fst st' = fst st1"
  by force

lemma ms_Lit_advance: "st' \<in> set (ms (Seq (Lit c) b) ic ml s st) \<Longrightarrow> fst st < fst st'"
proof -
  assume "st' \<in> set (ms (Seq (Lit c) b) ic ml s st)"
  then obtain st1 where a: "st1 \<in> set (ms (Lit c) ic ml s st)" and b: "st' \<in> set (ms b ic ml s st1)"
    unfolding ms_Seq_mem by blast
  from a have "fst st1 = Suc (fst st)" by (simp add: one_char_def split: if_splits)
  moreover from b have "fst st1 \<le> fst st'" by (rule ms_mono)
  ultimately show ?thesis by simp
qed

lemma importRegex_advance:
  assumes "st' \<in> set (ms (pat importRegex) ic ml s st)"
  shows "fst st < fst st'"
proof -
  let ?kw = "Alt (Str ''import'') (Str ''from'')"
  from assms obtain st1 st2 st3 where
    1: "st1 \<in> set (ms Bol ic ml s st)" and
    2: "st2 \<in> set (ms (Grp 1 (Star Space)) ic ml s st1)" and
    3: "st3 \<in> set (ms (Grp 2 ?kw) ic ml s st2)" and
    4: "st' \<in> set (ms (Cat [Plus Space, Grp 3 (LazyStar AnyCh), Star Space, Star (Lit CHR '';''), Eol]) ic ml s st3)"
    unfolding importRegex_def regex.simps Cat.simps ms_Seq_mem by blast
  from 3 obtain st3' where 5: "st3' \<in> set (ms ?kw ic ml s st2)" and 6: "fst st3 = fst st3'"
    using ms_Grp_mem by blast
  from 5 have "st3' \<in> set (ms (Str ''import'') ic ml s st2) \<or> st3' \<in> set (ms (Str ''from'') ic ml s st2)"
    by simp
  then have "fst st2 < fst st3'"
    unfolding Str_def list.map Cat.simps using ms_Lit_advance by blast
  moreover from 1 have "fst st \<le> fst st1" by (rule ms_mono)
  moreover from 2 have "fst st1 \<le> fst st2" by (rule ms_mono)
  moreover from 4 have "fst st3 \<le> fst st'" by (rule ms_mono)
  ultimately show ?thesis using 6 by simp
qed

lemma importRegex_exec_advance:
  assumes "rx_exec importRegex s i = Some m"
  shows "i < m_end m \<and> i \<le> length s"
proof -
  have "\<And>is. first_match importRegex s is = Some m \<Longrightarrow> m_index m < m_end m"
  proof -
    fix "is" show "first_match importRegex s is = Some m \<Longrightarrow> m_index m < m_end m"
    proof (induction "is")
      case Nil
      then show ?case by simp
    next
      case (Cons j js)
      show ?case
      proof (cases "ms (pat importRegex) (ignoreCase importRegex) (multiline importRegex) s (j, [])")
        case Nil
        with Cons show ?thesis by simp
      next
        case (Cons st sts)
        then have "st \<in> set (ms (pat importRegex) (ignoreCase importRegex) (multiline importRegex) s (j, []))"
          by simp
        then have "j < fst st" using importRegex_advance [of st _ _ s "(j, [])"] by simp
        moreover from Cons Cons.prems have "m = \<lparr>m_index = j, m_end = fst st, m_caps = snd st\<rparr>"
          by simp
        ultimately show ?thesis by simp
      qed
    qed
  qed
  then have "m_index m < m_end m" using assms by (simp add: rx_exec_def)
  with rx_exec_range [OF assms] show ?thesis by simp
qed


text \<open>The other patterns of \<open>parseImports\<close>: \<open>/\s+/\<close>, \<open>/((^\.)|\.)[^.]+$/\<close> and
  \<open>/^(.*)\./\<close>.\<close>

definition spaces :: regex where
  "spaces = \<lparr>pat = Plus Space, global = False, ignoreCase = False, multiline = False\<rparr>"

definition lastDotted :: regex where
  "lastDotted = \<lparr>pat = Cat [Grp 1 (Alt (Grp 2 (Cat [Bol, Lit CHR ''.''])) (Lit CHR ''.'')),
       Plus (NoneOf ''.''), Eol],
     global = False, ignoreCase = False, multiline = False\<rparr>"

definition upToLastDot :: regex where
  "upToLastDot = \<lparr>pat = Cat [Bol, Grp 1 (Star AnyCh), Lit CHR ''.''],
     global = False, ignoreCase = False, multiline = False\<rparr>"

text \<open>\<open>xs[i]\<close> is \<open>undefined\<close> (\<open>None\<close>) out of range; \<open>a || b\<close> on strings takes \<open>b\<close> when \<open>a\<close>
  is \<open>undefined\<close> or empty; \<open>undefined\<close> appended to a string reads \<open>undefined\<close>.\<close>

definition nth_opt :: "'a list \<Rightarrow> nat \<Rightarrow> 'a option" where
  "nth_opt xs i = (if i < length xs then Some (xs ! i) else None)"

definition js_or :: "string option \<Rightarrow> string \<Rightarrow> string" where
  "js_or a b = (case a of None \<Rightarrow> b | Some t \<Rightarrow> if t = [] then b else t)"

definition to_text :: "string option \<Rightarrow> string" where
  "to_text a = (case a of None \<Rightarrow> ''undefined'' | Some t \<Rightarrow> t)"

text \<open>One element of \<open>imports\<close>. \<open>class\<close> and \<open>alias\<close> are \<open>rest[2]\<close> in a \<open>from\<close> statement,
  which is \<open>undefined\<close> when the statement has fewer than three words.\<close>

record import_record =
  imp_type :: string
  imp_package :: string
  imp_class :: "string option"
  imp_alias :: "string option"
  imp_resolved :: string

text \<open>A method call on \<open>undefined\<close> throws a TypeError. The body of the loop calls methods
  on \<open>m[3]\<close> and \<open>rest[0]\<close>, and the model also stops with the error where \<open>m[2]\<close> is
  \<open>undefined\<close>; none of this ever happens, as is shown below.\<close>

definition import_of :: "string \<Rightarrow> string option \<Rightarrow> rmatch \<Rightarrow> js_error + import_record" where
  "import_of code rel m =
     (case (group code m 2, group code m 3) of
        (Some type, Some body) \<Rightarrow>
          (let rest = js_split body spaces in
           case nth_opt rest 0 of
             None \<Rightarrow> Inl TypeError
           | Some rest0 \<Rightarrow>
               if type = ''import'' then
                 Inr \<lparr>imp_type = type,
                   imp_package = resolve rel (js_replace rest0 lastDotted [RGroup 2]),
                   imp_class = Some (js_replace rest0 upToLastDot []),
                   imp_alias = Some (js_replace (js_or (nth_opt rest 2) rest0) leadingDot []),
                   imp_resolved = resolve rel rest0\<rparr>
               else
                 Inr \<lparr>imp_type = type,
                   imp_package = resolve rel rest0,
                   imp_class = nth_opt rest 2,
                   imp_alias = nth_opt rest 2,
                   imp_resolved = resolve rel
                     ((if rest0 \<noteq> [] then rest0 @ ''.'' else []) @ to_text (nth_opt rest 2))\<rparr>)
      | _ \<Rightarrow> Inl TypeError)"

text \<open>The loop \<open>while (m = importRegex.exec(code))\<close>: \<open>exec\<close> starts at \<open>lastIndex\<close> and
  leaves the end of the match there.\<close>

function parse_loop ::
  "string \<Rightarrow> string option \<Rightarrow> nat \<Rightarrow> import_record list \<Rightarrow> js_error + import_record list" where
  "parse_loop code rel lastIndex imports =
     (case rx_exec importRegex code lastIndex of
        None \<Rightarrow> Inr imports
      | Some m \<Rightarrow>
          (case import_of code rel m of
             Inl e \<Rightarrow> Inl e
           | Inr r \<Rightarrow> parse_loop code rel (m_end m) (imports @ [r])))"
  by pat_completeness auto
termination
proof (relation "measure (\<lambda>(code, rel, lastIndex, imports). Suc (length code) - lastIndex)",
    goal_cases)
  case 1
  show ?case by simp
next
  case (2 code rel lastIndex found m r)
  then have "lastIndex < m_end m \<and> lastIndex \<le> length code"
    using importRegex_exec_advance by blast
  then show ?case by simp arith
qed

declare parse_loop.simps [simp del]

text \<open>\<open>importRegex.lastIndex\<close> is 0 on entry: the function resets it before it returns, and
  a failing \<open>exec\<close> does too.\<close>

definition parseImports :: "string \<Rightarrow> string option \<Rightarrow> js_error + import_record list" where
  "parseImports code rel = parse_loop code rel 0 []"


text \<open>A dotted path is relative when it starts with a dot.\<close>

definition leading_dot :: "string \<Rightarrow> bool" where
  "leading_dot s = (s \<noteq> [] \<and> hd s = CHR ''.'')"

section \<open>The source sanitizer\<close>

text \<open>The patterns of \<open>sanitizeCode\<close>, \<open>/^#/\<close> and
  \<open>/^([ \t]*(\/\/)?(import|from)\b.*)$/img\<close>, and those of \<open>unsanitizeCode\<close>, \<open>/^\/\/#/\<close> and
  \<open>/^\/\/([ \t]*(import|from)\b.*)$/img\<close>.\<close>

definition hashAtStart :: regex where
  "hashAtStart = \<lparr>pat = Cat [Bol, Lit CHR ''#''],
     global = False, ignoreCase = False, multiline = False\<rparr>"

definition importLine :: regex where
  "importLine = \<lparr>pat = Cat [Bol,
       Grp 1 (Cat [Star (OneOf [CHR '' '', CHR 0x09]), Opt (Grp 2 (Str ''//'')),
         Grp 3 (Alt (Str ''import'') (Str ''from'')), WordB, Star AnyCh]),
       Eol],
     global = True, ignoreCase = True, multiline = True\<rparr>"

definition maskedHash :: regex where
  "maskedHash = \<lparr>pat = Cat [Bol, Str ''//#''],
     global = False, ignoreCase = False, multiline = False\<rparr>"

definition maskedImport :: regex where
  "maskedImport = \<lparr>pat = Cat [Bol, Str ''//'',
       Grp 1 (Cat [Star (OneOf [CHR '' '', CHR 0x09]),
         Grp 2 (Alt (Str ''import'') (Str ''from'')), WordB, Star AnyCh]),
       Eol],
     global = True, ignoreCase = True, multiline = True\<rparr>"

definition sanitizeCode :: "string \<Rightarrow> string" where
  "sanitizeCode code =
     js_replace (js_replace code hashAtStart [RText ''//#'']) importLine [RText ''//'', RGroup 1]"

definition unsanitizeCode :: "string \<Rightarrow> string" where
  "unsanitizeCode code =
     js_replace (js_replace code maskedHash [RText ''#'']) maskedImport [RGroup 1]"

section \<open>Walking and rewriting a script\<close>

text \<open>
  The file system is a map from paths to contents. The AST engine \<open>falafel\<close> is not part
  of this program: it is a parameter, which for a source text gives the nodes it has
  visited and the text it returns, \<open>None\<close> when it throws.

  \<open>walkScript\<close> gives the events of its emitter in order. When the file cannot be read,
  \<open>code\<close> is \<open>undefined\<close>: \<open>sanitizeCode\<close> throws inside the \<open>try\<close>, and then \<open>unsanitizeCode\<close>
  throws outside of it.
\<close>

datatype 'n script_event = Node 'n | End string

definition walkScript ::
  "(string \<Rightarrow> 'n list \<times> string option) \<Rightarrow> (string \<rightharpoonup> string) \<Rightarrow> string
     \<Rightarrow> js_error + 'n script_event list" where
  "walkScript falafel fs path =
     (case fs path of
        None \<Rightarrow> Inl TypeError
      | Some code \<Rightarrow>
          (let (nodes, result) = falafel (sanitizeCode code);
               out = (case result of None \<Rightarrow> code | Some text \<Rightarrow> text)
           in Inr (map Node nodes @ [End (unsanitizeCode out)])))"

text \<open>\<open>rewriteScript\<close> writes the code of each \<open>end\<close> event back to the file; it gives the
  file system afterwards.\<close>

definition rewriteScript ::
  "(string \<Rightarrow> 'n list \<times> string option) \<Rightarrow> (string \<rightharpoonup> string) \<Rightarrow> string
     \<Rightarrow> js_error + (string \<rightharpoonup> string)" where
  "rewriteScript falafel fs path =
     (case walkScript falafel fs path of
        Inl e \<Rightarrow> Inl e
      | Inr events \<Rightarrow>
          Inr (fold (\<lambda>ev fs'. case ev of End code \<Rightarrow> fs'(path \<mapsto> code) | Node n \<Rightarrow> fs')
                 events fs))"

section \<open>Utility functions\<close>

definition serializeConfig :: "host \<Rightarrow> jsval \<Rightarrow> string" where
  "serializeConfig h json = JSON_stringify h json [CHR 0x09]"



text \<open>
  \<open>createUUID\<close>. Called without an argument it takes the text of \<open>[1e7]+1e3+4e3+8e3+1e11\<close> and
  replaces every \<open>0\<close>, \<open>1\<close> and \<open>8\<close> in it by \<open>createUUID(a)\<close>, where \<open>a\<close> is the character
  replaced; with such an \<open>a\<close>, a string that is not empty and so passes the test \<open>a ?\<close>, it
  gives \<open>(a ^ Math.random() * 16 >> a / 4).toString(16)\<close>, here \<open>uuid_digit\<close>. \<open>n\<close> counts the
  calls of \<open>Math.random\<close>.
\<close>

definition uuid_template :: string where
  "uuid_template =
     to_base 10 (10 ^ 7) @ to_base 10 (10 ^ 3) @ to_base 10 (4 * 10 ^ 3) @ to_base 10 (8 * 10 ^ 3)
       @ to_base 10 (10 ^ 11)"

lemma uuid_template_text [code]: "uuid_template = ''10000000100040008000100000000000''"
  by (simp add: uuid_template_def to_base.simps digit_char_def)

definition zeroOneEight :: regex where
  "zeroOneEight = \<lparr>pat = OneOf ''018'', global = True, ignoreCase = False, multiline = False\<rparr>"

definition uuid_digit :: "host \<Rightarrow> string \<Rightarrow> nat \<Rightarrow> string \<times> nat" where
  "uuid_digit h a n =
     (to_base 16 (to_number a XOR drop_bit (to_number a div 4) (random16 h n)), Suc n)"

text \<open>\<open>s.replace(re, f)\<close> for a global \<open>re\<close> and a function \<open>f\<close> that has a state: \<open>f\<close> is
  called on the text of each match in turn.\<close>

fun splice_fn ::
  "string \<Rightarrow> (string \<Rightarrow> 'st \<Rightarrow> string \<times> 'st) \<Rightarrow> nat \<Rightarrow> rmatch list \<Rightarrow> 'st \<Rightarrow> string \<times> 'st" where
  "splice_fn s f p [] st = (drop p s, st)"
| "splice_fn s f p (m # found) st =
     (let (t, st1) = f (substring s (m_index m) (m_end m)) st;
          (rest, st2) = splice_fn s f (m_end m) found st1
      in (substring s p (m_index m) @ t @ rest, st2))"

definition js_replace_fn ::
  "string \<Rightarrow> regex \<Rightarrow> (string \<Rightarrow> 'st \<Rightarrow> string \<times> 'st) \<Rightarrow> 'st \<Rightarrow> string \<times> 'st" where
  "js_replace_fn s re f st =
     (if global re then splice_fn s f 0 (all_matches re s 0) st
      else (case rx_exec re s 0 of None \<Rightarrow> (s, st) | Some m \<Rightarrow> splice_fn s f 0 [m] st))"

definition createUUID :: "host \<Rightarrow> nat \<Rightarrow> string \<times> nat" where
  "createUUID h n = js_replace_fn uuid_template zeroOneEight (uuid_digit h) n"

section \<open>The manifest\<close>

text \<open>The test of \<open>readManifest\<close> on \<open>this.manifest.appID\<close>:
  \<open>!appID || typeof appID !== 'string' || appID.length < 1\<close>.\<close>

definition invalid_appID :: "jsval option \<Rightarrow> bool" where
  "invalid_appID appID =
     (falsy appID \<or> typeof appID \<noteq> ''string''
      \<or> (case appID of Some (JStr s) \<Rightarrow> length s < 1 | _ \<Rightarrow> False))"

text \<open>
  \<open>readManifest\<close>, from the moment \<open>fs.readFile\<close> calls back. Its result says how the
  callback \<open>cb\<close> is called, \<open>cb(err)\<close> or \<open>cb(null, manifest)\<close>, or what is thrown; the call of
  \<open>cb\<close> is the last thing the code does, and the state given with it is the state in which
  \<open>cb\<close> is called.
\<close>

datatype read_error = IOError | ParseError string

datatype outcome = Called "read_error + jsval" | Thrown js_error

definition readManifest :: "host \<Rightarrow> state \<Rightarrow> outcome \<times> state" where
  "readManifest h s =
     (case files s (p_manifest (paths s)) of
        None \<Rightarrow> (Called (Inl IOError), s)
      | Some contents \<Rightarrow>
          (case JSON_parse h contents of
             None \<Rightarrow> (Called (Inl (ParseError contents)), s)
           | Some m \<Rightarrow>
               (let s1 = s\<lparr>manifest := Some m\<rparr> in
                case get_named m ''appID'' of
                  Inl e \<Rightarrow> (Thrown e, s1)
                | Inr appID \<Rightarrow>
                    if invalid_appID appID then
                      (let (uuid, n) = createUUID h (drawn s1);
                           s2 = s1\<lparr>drawn := n\<rparr>
                       in case set_named m ''appID'' (JStr uuid) of
                            Inl e \<Rightarrow> (Thrown e, s2)
                          | Inr m' \<Rightarrow>
                              (Called (Inr m'),
                               s2\<lparr>manifest := Some m',
                                  files := (files s2)(p_manifest (paths s2) \<mapsto> serializeConfig h m')\<rparr>))
                    else (Called (Inr m), s1))))"


definition saveManifestSync :: "host \<Rightarrow> jsval \<Rightarrow> state \<Rightarrow> state" where
  "saveManifestSync h data s =
     s\<lparr>manifest := Some data,
       files := (files s)(path_join h (p_root (paths s)) ''manifest.json'' \<mapsto> serializeConfig h data)\<rparr>"




text \<open>A host for the examples: its \<open>JSON\<close> knows the texts and values of the given table
  only, and its random numbers are \<open>0, 1, 2, \<dots>\<close> modulo 16.\<close>

definition example_host :: "(string \<times> jsval) list \<Rightarrow> host" where
  "example_host table =
     \<lparr>JSON_parse = map_of table,
      JSON_stringify = (\<lambda>v indent. case map_of (map (\<lambda>(t, v). (v, t)) table) v of
                          None \<Rightarrow> ''null'' | Some t \<Rightarrow> t),
      path_join = (\<lambda>a b. a @ ''/'' @ b),
      random16 = (\<lambda>n. n mod 16)\<rparr>"

text \<open>The state of the examples: a package at \<open>/game\<close> whose manifest file holds the
  given text.\<close>

definition example_paths :: paths where
  "example_paths = \<lparr>p_root = ''/game'', p_shared = ''/game/shared'',
     p_resources = ''/game/resources'', p_icons = ''/game/icons'',
     p_lang = ''/game/resources/lang'', p_manifest = ''/game/manifest.json''\<rparr>"

definition example_state :: "string \<Rightarrow> jsval option \<Rightarrow> state" where
  "example_state contents m =
     \<lparr>files = [''/game/manifest.json'' \<mapsto> contents], drawn = 0, pending = [],
      paths = example_paths, manifest = m\<rparr>"

section \<open>Listing files\<close>

text \<open>
  The directory walker \<open>findit\<close> and the functions of \<open>fs\<close> and \<open>path\<close> are not part of this
  program: \<open>findit_find h base\<close> gives the files for which \<open>findit.find(base)\<close> emits \<open>file\<close>,
  with their stats, and \<open>findit_sync h base\<close> the entries that \<open>findit.sync(base, f)\<close> calls
  \<open>f\<close> on, in order.
\<close>

record 'stat lister =
  existsSync :: "string \<Rightarrow> bool"
  findit_find :: "string \<Rightarrow> (string \<times> 'stat) list"
  findit_sync :: "string \<Rightarrow> (string \<times> 'stat) list"
  isFile :: "'stat \<Rightarrow> bool"
  extname :: "string \<Rightarrow> string"
  basename :: "string \<Rightarrow> string \<Rightarrow> string"

record 'stat file_entry =
  fe_name :: string
  fe_path :: string
  fe_stat :: 'stat

datatype 'stat list_event = FileEvent string string 'stat | EndEvent

text \<open>
  What a call of \<open>listFiles\<close> does: whether it returns its emitter \<open>ret\<close> (it returns
  \<open>undefined\<close> otherwise), the events that are emitted on \<open>ret\<close>, in order, and the list
  that the callback is called with, if it is called. \<open>exts\<close> is \<open>None\<close> when the caller gives
  no extensions, and \<open>cb\<close> says whether the caller gives a callback.
\<close>

record 'stat listing =
  returned :: bool
  emitted :: "'stat list_event list"
  collected :: "'stat file_entry list option"

definition has_ext :: "'stat lister \<Rightarrow> string list option \<Rightarrow> string \<Rightarrow> bool" where
  "has_ext h exts file =
     (substr (extname h file) 1 \<in> set (case exts of None \<Rightarrow> [] | Some es \<Rightarrow> es))"

definition entry_of :: "'stat lister \<Rightarrow> string \<times> 'stat \<Rightarrow> 'stat file_entry" where
  "entry_of h e =
     \<lparr>fe_name = basename h (fst e) (extname h (fst e)), fe_path = fst e, fe_stat = snd e\<rparr>"

definition listFiles ::
  "'stat lister \<Rightarrow> string \<Rightarrow> string list option \<Rightarrow> bool \<Rightarrow> 'stat listing" where
  "listFiles h base exts cb =
     (if \<not> existsSync h base then
        (if cb then \<lparr>returned = False, emitted = [], collected = Some []\<rparr>
         else \<lparr>returned = False, emitted = [EndEvent], collected = None\<rparr>)
      else
        (let found = map (entry_of h) (filter (\<lambda>e. has_ext h exts (fst e)) (findit_find h base))
         in \<lparr>returned = True,
              emitted = map (\<lambda>f. FileEvent (fe_name f) (fe_path f) (fe_stat f)) found @ [EndEvent],
              collected = (if cb then Some found else None)\<rparr>))"

definition listFilesSync :: "'stat lister \<Rightarrow> string \<Rightarrow> string list option \<Rightarrow> 'stat file_entry list" where
  "listFilesSync h base exts =
     (if existsSync h base
      then map (entry_of h)
             (filter (\<lambda>e. isFile h (snd e) \<and> has_ext h exts (fst e)) (findit_sync h base))
      else [])"

text \<open>The events that the listeners of the caller receive: a caller can listen only on
  the emitter that \<open>listFiles\<close> returns to it.\<close>

definition delivered :: "'stat listing \<Rightarrow> 'stat list_event list" where
  "delivered l = (if returned l then emitted l else [])"

text \<open>A lister for the examples: the one directory \<open>/game\<close>, with the one file \<open>a.js\<close>; a
  stat says whether the entry is a file.\<close>

definition example_lister :: "bool lister" where
  "example_lister =
     \<lparr>existsSync = (\<lambda>p. p = ''/game''),
      findit_find = (\<lambda>p. [(''/game/a.js'', True)]),
      findit_sync = (\<lambda>p. [(''/game'', False), (''/game/a.js'', True)]),
      isFile = (\<lambda>st. st),
      extname = (\<lambda>p. ''.js''),
      basename = (\<lambda>p e. ''a'')\<rparr>"

section \<open>Lemmas\<close>

subsection \<open>What a match is\<close>

lemma first_match_sound:
  "first_match re s is = Some m \<Longrightarrow>
     (m_end m, m_caps m) \<in> set (ms (pat re) (ignoreCase re) (multiline re) s (m_index m, []))"
proof (induction "is")
  case Nil
  then show ?case by simp
next
  case (Cons i "is")
  show ?case
  proof (cases "ms (pat re) (ignoreCase re) (multiline re) s (i, [])")
    case Nil
    with Cons show ?thesis by simp
  next
    case (Cons st sts)
    with Cons.prems have "m = \<lparr>m_index = i, m_end = fst st, m_caps = snd st\<rparr>" by simp
    with Cons show ?thesis by simp
  qed
qed

lemma rx_exec_sound:
  "rx_exec re s i = Some m \<Longrightarrow>
     (m_end m, m_caps m) \<in> set (ms (pat re) (ignoreCase re) (multiline re) s (m_index m, []))"
  unfolding rx_exec_def by (rule first_match_sound)

lemma lastSegment_end:
  assumes "st' \<in> set (ms (pat lastSegment) False False s st)"
  shows "fst st' = length s"
proof -
  from assms obtain st1 st2 st3 where
    "st3 \<in> set (ms Eol False False s st2)" and "st' \<in> set (ms Emp False False s st3)"
    unfolding lastSegment_def regex.simps Cat.simps ms_Seq_mem by blast
  then show ?thesis by (simp add: assertion_def split: if_splits)
qed

lemma replace_lastSegment: "\<exists>n. js_replace s lastSegment [] = take n s"
proof (cases "rx_exec lastSegment s 0")
  case None
  then have "js_replace s lastSegment [] = take (length s) s"
    by (simp add: js_replace_def lastSegment_def)
  then show ?thesis by blast
next
  case (Some m)
  from rx_exec_sound [OF Some] have "m_end m = length s"
    using lastSegment_end [of "(m_end m, m_caps m)" s "(m_index m, [])"]
    by (simp add: lastSegment_def)
  with Some have "js_replace s lastSegment [] = take (m_index m) s"
    by (simp add: js_replace_def lastSegment_def substring_def)
  then show ?thesis by blast
qed

lemma leading_dot_take: "\<not> leading_dot s \<Longrightarrow> \<not> leading_dot (take n s)"
  by (cases s; cases n) (simp_all add: leading_dot_def)

lemma leading_dot_match: "leading_dot cls \<Longrightarrow> js_match cls leadingDot \<noteq> None"
proof -
  assume "leading_dot cls"
  then obtain t where cls: "cls = CHR ''.'' # t" by (cases cls) (simp_all add: leading_dot_def)
  have "ms (pat leadingDot) (ignoreCase leadingDot) (multiline leadingDot) cls (0, []) = [(1, [])]"
    by (simp add: cls leadingDot_def one_char_def assertion_def)
  then show ?thesis
    by (simp add: js_match_def rx_exec_def upt_conv_Cons del: upt_Suc)
qed

lemma resolve_loop_no_leading_dot:
  "\<not> leading_dot rel2 \<Longrightarrow> \<not> leading_dot (resolve_loop rel2 cls)"
proof (induction rel2 cls rule: resolve_loop.induct)
  case (1 rel2 cls)
  show ?case
  proof (cases "js_match cls leadingDot \<noteq> None")
    case True
    obtain n where n: "js_replace rel2 lastSegment [] = take n rel2"
      using replace_lastSegment by blast
    from "1.prems" have "\<not> leading_dot (js_replace rel2 lastSegment [])"
      unfolding n by (rule leading_dot_take)
    with "1.IH" [OF True] have "\<not> leading_dot (resolve_loop (js_replace rel2 lastSegment []) (substr cls 1))" .
    with True show ?thesis by (subst resolve_loop.simps) simp
  next
    case False
    then have "\<not> leading_dot cls" using leading_dot_match by blast
    with "1.prems" have "\<not> leading_dot (rel2 @ cls)"
      by (cases rel2) (simp_all add: leading_dot_def)
    with False show ?thesis by (subst resolve_loop.simps) simp
  qed
qed

lemma resolve_no_leading_dot:
  assumes "r \<noteq> []" and "\<not> leading_dot r"
  shows "\<not> leading_dot (resolve (Some r) cls)"
proof (cases "charAt cls 0 \<noteq> ''.''")
  case True
  then have "\<not> leading_dot cls" by (cases cls) (simp_all add: leading_dot_def charAt_def)
  with True show ?thesis by (simp add: resolve_def)
next
  case False
  with assms show ?thesis by (simp add: resolve_def resolve_loop_no_leading_dot)
qed

lemma import_of_resolved:
  assumes "import_of code rel m = Inr \<rho>"
  shows "\<exists>cls. imp_resolved \<rho> = resolve rel cls"
proof (cases "group code m 2")
  case None
  with assms show ?thesis by (simp add: import_of_def)
next
  case t: (Some type)
  show ?thesis
  proof (cases "group code m 3")
    case None
    with assms t show ?thesis by (simp add: import_of_def)
  next
    case b: (Some body)
    show ?thesis
    proof (cases "nth_opt (js_split body spaces) 0")
      case None
      with assms t b show ?thesis by (simp add: import_of_def)
    next
      case (Some rest0)
      show ?thesis
      proof (cases "type = ''import''")
        case True
        with assms t b Some have "imp_resolved \<rho> = resolve rel rest0"
          by (auto simp: import_of_def Let_def)
        then show ?thesis by blast
      next
        case False
        with assms t b Some have "imp_resolved \<rho> = resolve rel
          ((if rest0 \<noteq> [] then rest0 @ ''.'' else []) @ to_text (nth_opt (js_split body spaces) 2))"
          by (auto simp: import_of_def Let_def)
        then show ?thesis by blast
      qed
    qed
  qed
qed

lemma parse_loop_all:
  "(\<And>m \<rho>. import_of code rel m = Inr \<rho> \<Longrightarrow> P \<rho>) \<Longrightarrow>
   parse_loop code rel i acc = Inr recs \<Longrightarrow> \<forall>\<rho> \<in> set acc. P \<rho> \<Longrightarrow> \<forall>\<rho> \<in> set recs. P \<rho>"
proof (induction code rel i acc rule: parse_loop.induct)
  case (1 code rel lastIndex acc)
  show ?case
  proof (cases "rx_exec importRegex code lastIndex")
    case None
    with "1.prems" show ?thesis by (simp add: parse_loop.simps [of code rel lastIndex acc])
  next
    case (Some m)
    show ?thesis
    proof (cases "import_of code rel m")
      case (Inl e)
      with Some "1.prems" show ?thesis by (simp add: parse_loop.simps [of code rel lastIndex acc])
    next
      case (Inr r)
      with Some "1.prems" have "parse_loop code rel (m_end m) (acc @ [r]) = Inr recs"
        by (simp add: parse_loop.simps [of code rel lastIndex acc])
      moreover have "\<forall>\<rho> \<in> set (acc @ [r]). P \<rho>" using "1.prems"(1,3) Inr by simp
      ultimately show ?thesis using "1.IH" [OF Some Inr] "1.prems"(1) by blast
    qed
  qed
qed

lemma iter_caps:
  assumes f: "\<And>st st'. st' \<in> set (f st) \<Longrightarrow> snd st' = snd st"
  shows "st' \<in> set (iter g f n st) \<Longrightarrow> snd st' = snd st"
proof (induction n arbitrary: st)
  case 0
  then show ?case by simp
next
  case (Suc n)
  from Suc.prems have "st' = st \<or> (\<exists>st1 \<in> set (f st). st' \<in> set (iter g f n st1))"
    by (auto simp: Let_def split: if_splits)
  then show ?case
  proof
    assume "st' = st" then show ?thesis by simp
  next
    assume "\<exists>st1 \<in> set (f st). st' \<in> set (iter g f n st1)"
    then obtain st1 where "st1 \<in> set (f st)" "st' \<in> set (iter g f n st1)" by blast
    with Suc.IH [of st1] f [of st1 st] show ?thesis by simp
  qed
qed

lemma ms_no_grp: "no_grp r \<Longrightarrow> st' \<in> set (ms r ic ml s st) \<Longrightarrow> snd st' = snd st"
proof (induction r arbitrary: st st')
  case (Seq a b)
  from Seq.prems obtain st1 where "st1 \<in> set (ms a ic ml s st)" "st' \<in> set (ms b ic ml s st1)"
    by auto
  moreover from Seq.prems have na: "no_grp a" and nb: "no_grp b" by simp_all
  ultimately have "snd st1 = snd st" "snd st' = snd st1"
    using Seq.IH(1) [OF na] Seq.IH(2) [OF nb] by blast+
  then show ?case by simp
next
  case (Alt a b)
  from Alt.prems have na: "no_grp a" and nb: "no_grp b" by simp_all
  from Alt.prems have "st' \<in> set (ms a ic ml s st) \<or> st' \<in> set (ms b ic ml s st)" by simp
  then show ?case using Alt.IH(1) [OF na] Alt.IH(2) [OF nb] by blast
next
  case (Star a)
  then show ?case using iter_caps [of "ms a ic ml s" st' True] by simp
next
  case (LazyStar a)
  then show ?case using iter_caps [of "ms a ic ml s" st' False] by simp
next
  case (Grp k a)
  then show ?case by simp
qed (simp_all add: one_char_def assertion_def split: if_splits)

lemma ms_Grp_caps:
  "st' \<in> set (ms (Grp k a) ic ml s st) \<Longrightarrow>
     \<exists>st1 \<in> set (ms a ic ml s st). st' = (fst st1, (k, fst st, fst st1) # snd st1)"
  by force

lemma importRegex_caps:
  assumes "st' \<in> set (ms (pat importRegex) ic ml s (i, []))"
  shows "\<exists>a b c d e f. snd st' = [(3, a, b), (2, c, d), (1, e, f)]"
proof -
  let ?kw = "Alt (Str ''import'') (Str ''from'')"
  let ?tail = "Cat [Star Space, Star (Lit CHR '';''), Eol]"
  from assms obtain st1 st2 st3 st4 st5 where
    1: "st1 \<in> set (ms Bol ic ml s (i, []))" and
    2: "st2 \<in> set (ms (Grp 1 (Star Space)) ic ml s st1)" and
    3: "st3 \<in> set (ms (Grp 2 ?kw) ic ml s st2)" and
    4: "st4 \<in> set (ms (Plus Space) ic ml s st3)" and
    5: "st5 \<in> set (ms (Grp 3 (LazyStar AnyCh)) ic ml s st4)" and
    6: "st' \<in> set (ms ?tail ic ml s st5)"
    unfolding importRegex_def regex.simps Cat.simps ms_Seq_mem by blast
  from 1 have c1: "snd st1 = []" using ms_no_grp [of Bol st1 ic ml s "(i, [])"] by simp
  from 2 obtain x where "x \<in> set (ms (Star Space) ic ml s st1)"
    and x: "st2 = (fst x, (1, fst st1, fst x) # snd x)" using ms_Grp_caps by blast
  then have c2: "snd st2 = [(1, fst st1, fst x)]"
    using ms_no_grp [of "Star Space" x ic ml s st1] c1 by simp
  from 3 obtain y where "y \<in> set (ms ?kw ic ml s st2)"
    and y: "st3 = (fst y, (2, fst st2, fst y) # snd y)" using ms_Grp_caps by blast
  then have c3: "snd st3 = [(2, fst st2, fst y), (1, fst st1, fst x)]"
    using ms_no_grp [of ?kw y ic ml s st2] c2 by (simp add: Str_def)
  from 4 have c4: "snd st4 = snd st3"
    using ms_no_grp [of "Plus Space" st4 ic ml s st3] by (simp add: Plus_def)
  from 5 obtain z where "z \<in> set (ms (LazyStar AnyCh) ic ml s st4)"
    and z: "st5 = (fst z, (3, fst st4, fst z) # snd z)" using ms_Grp_caps by blast
  then have c5: "snd st5 = (3, fst st4, fst z) # snd st4"
    using ms_no_grp [of "LazyStar AnyCh" z ic ml s st4] by simp
  from 6 have "snd st' = snd st5" using ms_no_grp [of ?tail st' ic ml s st5] by simp
  with c5 c4 c3 show ?thesis by simp
qed

lemma split_loop_nonempty: "split_loop re s p q \<noteq> []"
proof (induction re s p q rule: split_loop.induct)
  case (1 re s p q)
  show ?case
  proof (cases "q < length s")
    case False
    then show ?thesis by (simp add: split_loop.simps [of re s p q])
  next
    case True
    show ?thesis
    proof (cases "ms (pat re) (ignoreCase re) (multiline re) s (q, [])")
      case Nil
      with True "1.IH"(1) show ?thesis by (simp add: split_loop.simps [of re s p q])
    next
      case (Cons st sts)
      show ?thesis
      proof (cases "min (fst st) (length s) = p")
        case e: True
        with True Cons "1.IH"(2) [OF True Cons refl e] show ?thesis
          by (simp add: split_loop.simps [of re s p q])
      next
        case e: False
        with True Cons show ?thesis by (simp add: split_loop.simps [of re s p q] Let_def)
      qed
    qed
  qed
qed

lemma js_split_spaces_nonempty: "js_split body spaces \<noteq> []"
proof (cases "body = []")
  case True
  then show ?thesis by (simp add: js_split_def spaces_def Plus_def one_char_def)
next
  case False
  then show ?thesis by (simp add: js_split_def split_loop_nonempty)
qed

lemma import_of_total:
  assumes "rx_exec importRegex code i = Some m"
  shows "\<exists>\<rho>. import_of code rel m = Inr \<rho>"
proof -
  have "\<exists>a b c d e f. snd (m_end m, m_caps m) = [(3, a, b), (2, c, d), (1, e, f)]"
    by (rule importRegex_caps [OF rx_exec_sound [OF assms]])
  then obtain a b c d e f where "m_caps m = [(3, a, b), (2, c, d), (1, e, f)]"
    by auto
  then obtain type body where g: "group code m 2 = Some type" "group code m 3 = Some body"
    by (simp add: group_def)
  obtain rest0 where r: "nth_opt (js_split body spaces) 0 = Some rest0"
    using js_split_spaces_nonempty [of body] by (simp add: nth_opt_def)
  show ?thesis
    by (cases "type = ''import''") (simp_all add: import_of_def g r Let_def)
qed

lemma importRegex_exec_nonempty:
  assumes "rx_exec importRegex s i = Some m"
  shows "m_index m < m_end m"
  using importRegex_advance [of "(m_end m, m_caps m)" _ _ s "(m_index m, [])"]
    rx_exec_sound [OF assms] by simp

lemma parse_loop_matches:
  "\<exists>recs. parse_loop code rel i acc = Inr (acc @ recs) \<and>
     map Inr recs = map (import_of code rel) (all_matches importRegex code i)"
proof (induction code rel i acc rule: parse_loop.induct)
  case (1 code rel lastIndex acc)
  show ?case
  proof (cases "rx_exec importRegex code lastIndex")
    case None
    then show ?thesis
      by (simp add: parse_loop.simps [of code rel lastIndex acc]
          all_matches.simps [of importRegex code lastIndex])
  next
    case (Some m)
    then obtain \<rho> where \<rho>: "import_of code rel m = Inr \<rho>" using import_of_total by blast
    from "1.IH" [OF Some \<rho>] obtain recs where
      recs: "parse_loop code rel (m_end m) (acc @ [\<rho>]) = Inr ((acc @ [\<rho>]) @ recs)"
        "map Inr recs = map (import_of code rel) (all_matches importRegex code (m_end m))"
      by blast
    have ne: "m_end m \<noteq> m_index m" using importRegex_exec_nonempty [OF Some] by simp
    have "parse_loop code rel lastIndex acc = Inr (acc @ \<rho> # recs)"
      using Some \<rho> recs(1) by (simp add: parse_loop.simps [of code rel lastIndex acc])
    moreover have "map Inr (\<rho> # recs) = map (import_of code rel) (all_matches importRegex code lastIndex)"
      using Some \<rho> recs(2) ne by (simp add: all_matches.simps [of importRegex code lastIndex])
    ultimately show ?thesis by blast
  qed
qed

subsection \<open>The counter of a star\<close>

lemma iter_bounded:
  assumes f: "\<And>st st'. st' \<in> set (f st) \<Longrightarrow> fst st \<le> N \<Longrightarrow> fst st' \<le> N"
  shows "st' \<in> set (iter g f n st) \<Longrightarrow> fst st \<le> N \<Longrightarrow> fst st' \<le> N"
proof (induction n arbitrary: st)
  case 0
  then show ?case by simp
next
  case (Suc n)
  from Suc.prems(1) have "st' = st \<or> (\<exists>st1 \<in> set (f st). st' \<in> set (iter g f n st1))"
    by (auto simp: Let_def split: if_splits)
  then show ?case
  proof
    assume "st' = st" with Suc.prems(2) show ?thesis by simp
  next
    assume "\<exists>st1 \<in> set (f st). st' \<in> set (iter g f n st1)"
    then obtain st1 where 1: "st1 \<in> set (f st)" and 2: "st' \<in> set (iter g f n st1)" by blast
    from f [OF 1 Suc.prems(2)] have "fst st1 \<le> N" .
    with Suc.IH [OF 2] show ?thesis .
  qed
qed

lemma ms_bounded: "st' \<in> set (ms r ic ml s st) \<Longrightarrow> fst st \<le> length s \<Longrightarrow> fst st' \<le> length s"
proof (induction r arbitrary: st st')
  case (Seq a b)
  from Seq.prems obtain st1 where 1: "st1 \<in> set (ms a ic ml s st)" and 2: "st' \<in> set (ms b ic ml s st1)"
    by auto
  from Seq.IH(1) [OF 1 Seq.prems(2)] have "fst st1 \<le> length s" .
  with Seq.IH(2) [OF 2] show ?case .
next
  case (Alt a b)
  from Alt.prems have "st' \<in> set (ms a ic ml s st) \<or> st' \<in> set (ms b ic ml s st)" by simp
  then show ?case using Alt.IH Alt.prems(2) by blast
next
  case (Star a)
  from Star.prems(1) have "st' \<in> set (iter True (ms a ic ml s) (length s - fst st) st)" by simp
  then show ?case using iter_bounded [of "ms a ic ml s" "length s"] Star.IH Star.prems(2) by blast
next
  case (LazyStar a)
  from LazyStar.prems(1) have "st' \<in> set (iter False (ms a ic ml s) (length s - fst st) st)" by simp
  then show ?case using iter_bounded [of "ms a ic ml s" "length s"] LazyStar.IH LazyStar.prems(2) by blast
next
  case (Grp k a)
  from Grp.prems obtain st1 where "st1 \<in> set (ms a ic ml s st)" "fst st' = fst st1"
    by force
  then show ?case using Grp.IH [of st1 st] Grp.prems(2) by simp
qed (auto simp: one_char_def assertion_def split: if_splits)

lemma iter_step:
  assumes f: "\<And>st st'. st' \<in> set (f st) \<Longrightarrow> fst st \<le> N \<Longrightarrow> fst st' \<le> N"
  shows "fst st \<le> N \<Longrightarrow> N - fst st \<le> n \<Longrightarrow> iter g f (Suc n) st = iter g f n st"
proof (induction n arbitrary: st)
  case 0
  have "filter (\<lambda>st'. fst st < fst st') (f st) = []"
  proof (rule ccontr)
    assume "filter (\<lambda>st'. fst st < fst st') (f st) \<noteq> []"
    then obtain st1 where "st1 \<in> set (filter (\<lambda>st'. fst st < fst st') (f st))"
      by (cases "filter (\<lambda>st'. fst st < fst st') (f st)") auto
    then have 1: "st1 \<in> set (f st)" and 2: "fst st < fst st1" by simp_all
    from f [OF 1 "0.prems"(1)] 2 "0.prems"(2) show False by simp
  qed
  then show ?case by (simp add: Let_def)
next
  case (Suc n)
  let ?next = "filter (\<lambda>st'. fst st < fst st') (f st)"
  have "map (iter g f (Suc n)) ?next = map (iter g f n) ?next"
  proof (rule map_cong [OF refl])
    fix st1 assume "st1 \<in> set ?next"
    then have 1: "st1 \<in> set (f st)" and 2: "fst st < fst st1" by simp_all
    from f [OF 1 Suc.prems(1)] have 3: "fst st1 \<le> N" .
    from 2 3 Suc.prems(2) have "N - fst st1 \<le> n" by simp
    with Suc.IH [OF 3] show "iter g f (Suc n) st1 = iter g f n st1" .
  qed
  then have "(let more = concat (map (iter g f (Suc n)) ?next) in if g then more @ [st] else st # more)
      = (let more = concat (map (iter g f n) ?next) in if g then more @ [st] else st # more)"
    by (simp only:)
  then show ?case by (simp only: iter.simps(2))
qed

lemma iter_fuel:
  assumes f: "\<And>st st'. st' \<in> set (f st) \<Longrightarrow> fst st \<le> N \<Longrightarrow> fst st' \<le> N"
  shows "fst st \<le> N \<Longrightarrow> N - fst st \<le> n \<Longrightarrow> iter g f n st = iter g f (N - fst st) st"
proof (induction n)
  case 0
  then show ?case by simp
next
  case (Suc n)
  show ?case
  proof (cases "N - fst st = Suc n")
    case True
    then show ?thesis by simp
  next
    case False
    with Suc.prems have le: "N - fst st \<le> n" by simp
    from iter_step [of f N st n g] f Suc.prems(1) le
    have "iter g f (Suc n) st = iter g f n st" by blast
    with Suc.IH [OF Suc.prems(1) le] show ?thesis by simp
  qed
qed

text \<open>More iterations than \<open>length s - pos\<close> never change what a star matches.\<close>

lemma star_fuel:
  "fst st \<le> length s \<Longrightarrow> length s - fst st \<le> n \<Longrightarrow>
     iter g (ms a ic ml s) n st = iter g (ms a ic ml s) (length s - fst st) st"
  using iter_fuel [of "ms a ic ml s" "length s" st n g] ms_bounded by blast

subsection \<open>Identifiers and objects\<close>

lemma to_base_digit: "v < 16 \<Longrightarrow> length (to_base 16 v) = 1"
  by (simp add: to_base.simps [of 16 v])

lemma uuid_value_bound:
  assumes "c \<in> set ''018''" and "r < 16"
  shows "to_number [c] XOR drop_bit (to_number [c] div 4) r < 16"
proof -
  have "\<forall>c \<in> set ''018''. \<forall>r \<in> set [0 ..< 16].
      to_number [c] XOR drop_bit (to_number [c] div 4) r < 16"
    by code_simp
  moreover have "r \<in> set [0 ..< 16]" using assms(2) by simp
  ultimately show ?thesis using assms(1) by blast
qed

lemma uuid_digit_length:
  assumes "c \<in> set ''018''" and "random16 h n < 16"
  shows "length (fst (uuid_digit h [c] n)) = 1"
  using uuid_value_bound [OF assms] by (simp add: uuid_digit_def to_base_digit)

lemma ms_OneOf:
  assumes "st' \<in> set (ms (OneOf cs) False ml s st)"
  shows "fst st' = Suc (fst st) \<and> fst st < length s \<and> s ! fst st \<in> set cs"
  using assms by (simp add: one_char_def canonicalize_def split: if_splits)

lemma splice_fn_class_length:
  assumes f: "\<And>c st. c \<in> set cs \<Longrightarrow> length (fst (f [c] st)) = 1"
  shows "pat re = OneOf cs \<Longrightarrow> \<not> ignoreCase re \<Longrightarrow> p \<le> i \<Longrightarrow> i \<le> length s \<Longrightarrow>
     length (fst (splice_fn s f p (all_matches re s i) st)) = length s - p"
proof (induction re s i arbitrary: p st rule: all_matches.induct)
  case (1 re s i)
  show ?case
  proof (cases "rx_exec re s i")
    case None
    then show ?thesis by (simp add: all_matches.simps [of re s i])
  next
    case (Some m)
    from rx_exec_range [OF Some] have r: "i \<le> m_index m" "m_index m \<le> length s" by simp_all
    from rx_exec_sound [OF Some] "1.prems"(1,2)
    have "(m_end m, m_caps m) \<in> set (ms (OneOf cs) False (multiline re) s (m_index m, []))"
      by simp
    from ms_OneOf [OF this]
    have e: "m_end m = Suc (m_index m)" and lt: "m_index m < length s"
      and c: "s ! m_index m \<in> set cs" by simp_all
    have am: "all_matches re s i = m # all_matches re s (m_end m)"
      using Some e by (simp add: all_matches.simps [of re s i])
    have sub: "substring s (m_index m) (m_end m) = [s ! m_index m]"
      using e lt by (simp add: substring_def take_Suc_conv_app_nth hd_drop_conv_nth take_Suc)
    obtain t st1 where t: "f [s ! m_index m] st = (t, st1)" by (cases "f [s ! m_index m] st")
    then have lt1: "length t = 1" using f [OF c, of st] by simp
    have ih: "length (fst (splice_fn s f (m_end m) (all_matches re s (m_end m)) st1)) = length s - m_end m"
      using "1.IH" [OF Some, of "m_end m" st1] "1.prems"(1,2) e lt by simp
    obtain r' st2 where r': "splice_fn s f (m_end m) (all_matches re s (m_end m)) st1 = (r', st2)"
      by (cases "splice_fn s f (m_end m) (all_matches re s (m_end m)) st1")
    with ih have lr: "length r' = length s - m_end m" by simp
    have "fst (splice_fn s f p (all_matches re s i) st) = substring s p (m_index m) @ t @ r'"
      by (simp add: am sub t r')
    moreover have "length (substring s p (m_index m)) = m_index m - p"
      using r "1.prems"(3) lt by (simp add: substring_def)
    ultimately show ?thesis using lt1 lr e lt r "1.prems"(3) by simp
  qed
qed

lemma createUUID_length:
  assumes "\<forall>n. random16 h n < 16"
  shows "length (fst (createUUID h n)) = 32"
proof -
  have "length (fst (splice_fn uuid_template (uuid_digit h) 0 (all_matches zeroOneEight uuid_template 0) n))
      = length uuid_template - 0"
  proof (rule splice_fn_class_length [where cs = "''018''"])
    fix c st assume "c \<in> set ''018''"
    then show "length (fst (uuid_digit h [c] st)) = 1"
      using assms uuid_digit_length by blast
  qed (simp_all add: zeroOneEight_def)
  then show ?thesis
    by (simp add: createUUID_def js_replace_fn_def zeroOneEight_def uuid_template_text)
qed

lemma map_of_replace_value:
  "map_of kvs k \<noteq> None \<Longrightarrow> map_of (replace_value k v kvs) = (map_of kvs)(k \<mapsto> v)"
  by (induction kvs) (auto simp: fun_upd_twist)

lemma map_of_insert_index:
  "map_of kvs k = None \<Longrightarrow> map_of (insert_index k v kvs) = (map_of kvs)(k \<mapsto> v)"
proof (induction kvs)
  case Nil
  then show ?case by simp
next
  case (Cons e kvs)
  obtain k' v' where e: "e = (k', v')" by (cases e)
  with Cons.prems have ne: "k' \<noteq> k" and n: "map_of kvs k = None" by (auto split: if_splits)
  show ?case
  proof (cases "is_index k' \<and> index_less k' k")
    case True
    with e ne Cons.IH [OF n] show ?thesis by (auto simp: fun_upd_twist)
  next
    case False
    with e show ?thesis by auto
  qed
qed

lemma map_of_snoc:
  "map_of kvs k = None \<Longrightarrow> map_of (kvs @ [(k, v)]) = (map_of kvs)(k \<mapsto> v)"
  by (auto simp: map_add_def fun_eq_iff split: option.splits)

text \<open>What \<open>o[k] = v\<close> does to the own properties.\<close>

lemma map_of_put:
  "map_of (put k v kvs) =
     (if k = ''__proto__'' \<and> map_of kvs k = None then map_of kvs else (map_of kvs)(k \<mapsto> v))"
proof (cases "map_of kvs k \<noteq> None")
  case True
  then show ?thesis by (auto simp: put_def map_of_replace_value)
next
  case False
  then have n: "map_of kvs k = None" by simp
  show ?thesis
  proof (cases "k = ''__proto__''")
    case True
    with n show ?thesis by (simp add: put_def)
  next
    case np: False
    show ?thesis
    proof (cases "is_index k")
      case True
      with n np show ?thesis by (simp add: put_def map_of_insert_index)
    next
      case False
      with n np map_of_snoc [OF n, of v] show ?thesis by (simp add: put_def del: map_of_append)
    qed
  qed
qed





subsection \<open>Listing a directory that does not exist\<close>

lemma listFiles_missing_base:
  assumes "\<not> existsSync h base"
  shows "listFilesSync h base exts = []
    \<and> listFiles h base exts True = \<lparr>returned = False, emitted = [], collected = Some []\<rparr>
    \<and> listFiles h base exts False = \<lparr>returned = False, emitted = [EndEvent], collected = None\<rparr>"
  using assms by (simp add: listFilesSync_def listFiles_def)

section \<open>Properties\<close>

subsection \<open>The import parser and resolver\<close>

text \<open>
  C3, as the code has it. Parsing \<open>import a.b.C;\<close>, with any base package path or none,
  yields exactly one record: type \<open>import\<close>, package \<open>a.b\<close>, class \<open>C\<close> and resolved path
  \<open>a.b.C\<close>. Its alias is \<open>a.b.C\<close>: with no third word, the alias is the whole path
  \<open>rest[0]\<close> less one leading dot, not the class name.
\<close>

theorem parseImports_import_statement:
  "parseImports ''import a.b.C;'' rel =
     Inr [\<lparr>imp_type = ''import'', imp_package = ''a.b'', imp_class = Some ''C'',
       imp_alias = Some ''a.b.C'', imp_resolved = ''a.b.C''\<rparr>]"
  by (code_simp, simp add: charAt_def split: option.splits)

text \<open>C3 as the specification states it, with alias \<open>C\<close>, fails: the record that the
  claim describes is not the one returned.\<close>

theorem parseImports_import_alias_counterexample:
  "parseImports ''import a.b.C;'' (Some ''x.y'') \<noteq>
     Inr [\<lparr>imp_type = ''import'', imp_package = ''a.b'', imp_class = Some ''C'',
       imp_alias = Some ''C'', imp_resolved = ''a.b.C''\<rparr>]"
  by code_simp

text \<open>
  C4. Resolving \<open>..Foo\<close> against the base \<open>a.b.c\<close> drops the last segment of the base
  twice (\<open>a.b.c\<close>, then \<open>a.b.\<close>, then \<open>a.\<close>) and appends \<open>Foo\<close>, which gives \<open>a.Foo\<close>; and
  a path with no leading dot is returned as it is, whatever the base package path.
\<close>

theorem resolve_relative_and_absolute:
  "resolve (Some ''a.b.c'') ''..Foo'' = ''a.Foo''
   \<and> js_replace ''a.b.c'' lastSegment [] = ''a.b.''
   \<and> js_replace ''a.b.'' lastSegment [] = ''a.''
   \<and> resolve_loop ''a.b.c'' ''..Foo'' = ''a.'' @ ''Foo''
   \<and> (\<forall>rel cls. \<not> leading_dot cls \<longrightarrow> resolve rel cls = cls)"
proof -
  have 1: "resolve (Some ''a.b.c'') ''..Foo'' = ''a.Foo''" by code_simp
  have 2: "js_replace ''a.b.c'' lastSegment [] = ''a.b.''" by code_simp
  have 3: "js_replace ''a.b.'' lastSegment [] = ''a.''" by code_simp
  have 4: "resolve_loop ''a.b.c'' ''..Foo'' = ''a.'' @ ''Foo''" by code_simp
  have 5: "resolve rel cls = cls" if "\<not> leading_dot cls" for rel cls
  proof (cases cls)
    case Nil
    then show ?thesis by (simp add: resolve_def charAt_def split: option.splits)
  next
    case (Cons c cs)
    with that have "c \<noteq> CHR ''.''" by (simp add: leading_dot_def)
    with Cons show ?thesis by (simp add: resolve_def charAt_def split: option.splits)
  qed
  from 1 2 3 4 5 show ?thesis by blast
qed

theorem resolve_relative_and_absolute_witness:
  "\<not> leading_dot ''Foo'' \<and> resolve (Some ''a.b.c'') ''Foo'' = ''Foo''
   \<and> resolve None ''Foo'' = ''Foo''"
  using resolve_relative_and_absolute by (simp add: leading_dot_def)

text \<open>
  C5. Parsing \<open>from a.b import C as D;\<close>, with any base package path or none, yields
  exactly one record: type \<open>from\<close>, package \<open>a.b\<close>, class \<open>C\<close>, alias \<open>C\<close> (the imported
  name \<open>rest[2]\<close>, not the word after \<open>as\<close>) and resolved path \<open>a.b.C\<close>.
\<close>

theorem parseImports_from_statement:
  "parseImports ''from a.b import C as D;'' rel =
     Inr [\<lparr>imp_type = ''from'', imp_package = ''a.b'', imp_class = Some ''C'',
       imp_alias = Some ''C'', imp_resolved = ''a.b.C''\<rparr>]"
  by (code_simp, simp add: charAt_def split: option.splits)


text \<open>
  C2, as the code has it. Whatever the input text, when the base package path is not empty
  and does not itself start with a dot, no record that \<open>parseImports\<close> returns has a
  resolved path that starts with a dot.
\<close>

theorem parseImports_resolved_no_leading_dot:
  assumes "r \<noteq> []" and "\<not> leading_dot r"
    and "parseImports code (Some r) = Inr recs" and "\<rho> \<in> set recs"
  shows "\<not> leading_dot (imp_resolved \<rho>)"
proof -
  have "\<forall>\<rho> \<in> set recs. \<not> leading_dot (imp_resolved \<rho>)"
  proof (rule parse_loop_all [where P = "\<lambda>\<rho>. \<not> leading_dot (imp_resolved \<rho>)" and acc = "[]"])
    fix m \<rho> assume "import_of code (Some r) m = Inr \<rho>"
    then obtain cls where "imp_resolved \<rho> = resolve (Some r) cls"
      using import_of_resolved by blast
    then show "\<not> leading_dot (imp_resolved \<rho>)"
      using resolve_no_leading_dot [OF assms(1,2)] by simp
  next
    show "parse_loop code (Some r) 0 [] = Inr recs" using assms(3) by (simp add: parseImports_def)
  qed simp
  with assms(4) show ?thesis by blast
qed

theorem parseImports_resolved_no_leading_dot_witness:
  "''a.b.c'' \<noteq> [] \<and> \<not> leading_dot ''a.b.c''
   \<and> parseImports ''import ..Foo;'' (Some ''a.b.c'') =
       Inr [\<lparr>imp_type = ''import'', imp_package = ''a.b.'', imp_class = Some ''Foo'',
         imp_alias = Some ''.Foo'', imp_resolved = ''a.Foo''\<rparr>]
   \<and> \<not> leading_dot (imp_resolved \<lparr>imp_type = ''import'', imp_package = ''a.b.'',
         imp_class = Some ''Foo'', imp_alias = Some ''.Foo'', imp_resolved = ''a.Foo''\<rparr>)"
proof -
  let ?\<rho> = "\<lparr>imp_type = ''import'', imp_package = ''a.b.'', imp_class = Some ''Foo'',
         imp_alias = Some ''.Foo'', imp_resolved = ''a.Foo''\<rparr>"
  have 1: "''a.b.c'' \<noteq> []" by simp
  have 2: "\<not> leading_dot ''a.b.c''" by (simp add: leading_dot_def)
  have 3: "parseImports ''import ..Foo;'' (Some ''a.b.c'') = Inr [?\<rho>]" by code_simp
  have 4: "?\<rho> \<in> set [?\<rho>]" by simp
  from parseImports_resolved_no_leading_dot [OF 1 2 3 4] 1 2 3 show ?thesis by blast
qed

text \<open>C2 as the specification states it, for an empty or absent base too, fails: with no
  base package path, and with an empty one, \<open>resolve\<close> returns a relative path as it is.\<close>

theorem parseImports_resolved_leading_dot_counterexample:
  "parseImports ''import .Foo;'' None =
     Inr [\<lparr>imp_type = ''import'', imp_package = ''.'', imp_class = Some ''Foo'',
       imp_alias = Some ''Foo'', imp_resolved = ''.Foo''\<rparr>]
   \<and> parseImports ''import .Foo;'' (Some []) =
     Inr [\<lparr>imp_type = ''import'', imp_package = ''.'', imp_class = Some ''Foo'',
       imp_alias = Some ''Foo'', imp_resolved = ''.Foo''\<rparr>]
   \<and> leading_dot ''.Foo''"
  by code_simp

text \<open>
  C6, as the code has it. On every input text \<open>parseImports\<close> returns, without an error,
  and what it returns is one record for each successive match of \<open>importRegex\<close> in the text,
  in order: text that the pattern does not match contributes no record. The terminator
  \<open>;\<close> is optional in the pattern (\<open>;*\<close>), so a statement without it is matched too.
\<close>

theorem parseImports_total:
  "\<exists>recs. parseImports code rel = Inr recs \<and>
     map Inr recs = map (import_of code rel) (all_matches importRegex code 0)"
  using parse_loop_matches [of code rel 0 "[]"] by (simp add: parseImports_def)

theorem parseImports_total_witness:
  "(\<exists>recs. parseImports ''var x = 1; // import nothing'' None = Inr recs \<and>
     map Inr recs = map (import_of ''var x = 1; // import nothing'' None)
       (all_matches importRegex ''var x = 1; // import nothing'' 0))
   \<and> all_matches importRegex ''var x = 1; // import nothing'' 0 = []"
proof -
  have "all_matches importRegex ''var x = 1; // import nothing'' 0 = []" by code_simp
  with parseImports_total [of "''var x = 1; // import nothing''" None] show ?thesis by blast
qed

text \<open>C6 as the specification states it, that an import statement without its \<open>;\<close>
  contributes no record, fails: \<open>import a.b.C\<close> is matched and yields a record.\<close>

theorem parseImports_missing_terminator_counterexample:
  "parseImports ''import a.b.C'' None =
     Inr [\<lparr>imp_type = ''import'', imp_package = ''a.b'', imp_class = Some ''C'',
       imp_alias = Some ''a.b.C'', imp_resolved = ''a.b.C''\<rparr>]"
  by code_simp

subsection \<open>The source sanitizer\<close>

text \<open>
  C1 asks that \<open>unsanitizeCode (sanitizeCode T) = T\<close> for every text \<open>T\<close>, lines that begin
  with \<open>//import\<close> included. On the text \<open>//import x\<close> the code does not give the text back:
  \<open>sanitizeCode\<close> masks the line as \<open>////import x\<close>, and \<open>unsanitizeCode\<close>, whose pattern
  wants \<open>import\<close> or \<open>from\<close> right after the first \<open>//\<close> and blanks, leaves that unchanged. Two
  more texts that do not come back: \<open>// import x\<close> and \<open>//#define\<close> are not changed by
  \<open>sanitizeCode\<close>, and \<open>unsanitizeCode\<close> takes their \<open>//\<close> away.
\<close>

theorem sanitize_roundtrip_commented_import:
  "sanitizeCode ''//import x'' = ''////import x''
   \<and> unsanitizeCode (sanitizeCode ''//import x'') = ''////import x''
   \<and> unsanitizeCode (sanitizeCode ''// import x'') = '' import x''
   \<and> unsanitizeCode (sanitizeCode ''//#define'') = ''#define''"
  by code_simp

subsection \<open>Walking and rewriting a script\<close>

text \<open>
  C9 asks that, when the AST engine throws, the code of the \<open>end\<close> event, which
  \<open>rewriteScript\<close> writes to the file, is the contents of the file unchanged. In the \<open>catch\<close>
  branch \<open>out\<close> is the contents, but \<open>unsanitizeCode\<close> is still applied to it: for a file
  that holds \<open>//import x\<close> and an engine that throws at once, the \<open>end\<close> event carries
  \<open>import x\<close>, and that is what the file holds afterwards.
\<close>

theorem walkScript_engine_failure:
  "walkScript (\<lambda>src. ([] :: nat list, None)) [''a.js'' \<mapsto> ''//import x''] ''a.js''
     = Inr [End ''import x'']
   \<and> (case rewriteScript (\<lambda>src. ([] :: nat list, None)) [''a.js'' \<mapsto> ''//import x''] ''a.js'' of
        Inl e \<Rightarrow> None
      | Inr fs \<Rightarrow> fs ''a.js'') = Some ''import x''"
  by code_simp

subsection \<open>The manifest\<close>

text \<open>
  C7, as the code has it. Let the manifest file hold valid JSON for an object that is
  written in braces (so not an array, which is \<open>JArr\<close> here, nor \<open>null\<close>) and whose \<open>appID\<close> is
  absent, not a string or empty, and let the host's \<open>JSON.parse\<close> read back the healed
  manifest from the text that \<open>serializeConfig\<close> writes for it. Then \<open>readManifest\<close> sets
  \<open>appID\<close> to a generated identifier of 32 characters (the text of
  \<open>[1e7]+1e3+4e3+8e3+1e11\<close> has 32 digits and no dashes, and each replacement is one
  hexadecimal digit); in the state in which the callback is called with the healed
  manifest, the manifest file already holds its serialization; and a second
  \<open>readManifest\<close> in that state calls back with the same manifest, so with the same
  \<open>appID\<close>, and changes nothing.
\<close>

theorem readManifest_self_heal:
  assumes "files s (p_manifest (paths s)) = Some contents"
    and "JSON_parse h contents = Some (JObj kvs)"
    and "invalid_appID (map_of kvs ''appID'')"
    and "\<forall>n. random16 h n < 16"
    and "uuid = fst (createUUID h (drawn s))"
    and "healed = JObj (put ''appID'' (JStr uuid) kvs)"
    and "JSON_parse h (serializeConfig h healed) = Some healed"
  shows "length uuid = 32
    \<and> get_named healed ''appID'' = Inr (Some (JStr uuid))
    \<and> fst (readManifest h s) = Called (Inr healed)
    \<and> files (snd (readManifest h s)) (p_manifest (paths s)) = Some (serializeConfig h healed)
    \<and> manifest (snd (readManifest h s)) = Some healed
    \<and> readManifest h (snd (readManifest h s)) = (Called (Inr healed), snd (readManifest h s))"
proof -
  let ?p = "p_manifest (paths s)"
  obtain n where cu: "createUUID h (drawn s) = (uuid, n)"
    using assms(5) by (cases "createUUID h (drawn s)") simp
  let ?s' = "s\<lparr>manifest := Some healed, drawn := n,
    files := (files s)(?p \<mapsto> serializeConfig h healed)\<rparr>"
  have len: "length uuid = 32" using assms(4,5) createUUID_length by simp
  have app: "get_named healed ''appID'' = Inr (Some (JStr uuid))"
    by (simp add: assms(6) map_of_put)
  have first: "readManifest h s = (Called (Inr healed), ?s')"
    using assms(1,2,3) by (simp add: readManifest_def cu assms(6))
  have valid: "\<not> invalid_appID (Some (JStr uuid))"
    using len by (auto simp: invalid_appID_def)
  have second: "readManifest h ?s' = (Called (Inr healed), ?s')"
    using assms(7) app valid by (simp add: readManifest_def)
  from len app first second show ?thesis by simp
qed

theorem readManifest_self_heal_witness:
  "files (example_state ''{}'' None) (p_manifest (paths (example_state ''{}'' None))) = Some ''{}''
   \<and> JSON_parse (example_host [(''{}'', JObj []),
         (''{appID}'', JObj [(''appID'', JStr ''1123456799ab4cdeb0122456789abcde'')])]) ''{}''
       = Some (JObj [])
   \<and> invalid_appID (map_of [] ''appID'')
   \<and> JSON_parse (example_host [(''{}'', JObj []),
         (''{appID}'', JObj [(''appID'', JStr ''1123456799ab4cdeb0122456789abcde'')])])
         (serializeConfig (example_host [(''{}'', JObj []),
            (''{appID}'', JObj [(''appID'', JStr ''1123456799ab4cdeb0122456789abcde'')])])
            (JObj [(''appID'', JStr ''1123456799ab4cdeb0122456789abcde'')]))
       = Some (JObj [(''appID'', JStr ''1123456799ab4cdeb0122456789abcde'')])
   \<and> fst (readManifest (example_host [(''{}'', JObj []),
         (''{appID}'', JObj [(''appID'', JStr ''1123456799ab4cdeb0122456789abcde'')])])
         (example_state ''{}'' None))
       = Called (Inr (JObj [(''appID'', JStr ''1123456799ab4cdeb0122456789abcde'')]))
   \<and> files (snd (readManifest (example_host [(''{}'', JObj []),
         (''{appID}'', JObj [(''appID'', JStr ''1123456799ab4cdeb0122456789abcde'')])])
         (example_state ''{}'' None))) ''/game/manifest.json''
       = Some ''{appID}''
   \<and> fst (readManifest (example_host [(''{}'', JObj []),
         (''{appID}'', JObj [(''appID'', JStr ''1123456799ab4cdeb0122456789abcde'')])])
         (snd (readManifest (example_host [(''{}'', JObj []),
           (''{appID}'', JObj [(''appID'', JStr ''1123456799ab4cdeb0122456789abcde'')])])
           (example_state ''{}'' None))))
       = Called (Inr (JObj [(''appID'', JStr ''1123456799ab4cdeb0122456789abcde'')]))
   \<and> length ''1123456799ab4cdeb0122456789abcde'' = 32"
proof -
  let ?u = "''1123456799ab4cdeb0122456789abcde''"
  let ?m = "JObj [(''appID'', JStr ?u)]"
  let ?h = "example_host [(''{}'', JObj []), (''{appID}'', ?m)]"
  let ?s = "example_state ''{}'' None"
  have 1: "files ?s (p_manifest (paths ?s)) = Some ''{}''" by code_simp
  have 2: "JSON_parse ?h ''{}'' = Some (JObj [])" by code_simp
  have 3: "invalid_appID (map_of [] ''appID'')" by code_simp
  have 4: "\<forall>n. random16 ?h n < 16" by (simp add: example_host_def)
  have 5: "?u = fst (createUUID ?h (drawn ?s))" by code_simp
  have 6: "?m = JObj (put ''appID'' (JStr ?u) [])" by code_simp
  have 7: "JSON_parse ?h (serializeConfig ?h ?m) = Some ?m" by code_simp
  have 8: "serializeConfig ?h ?m = ''{appID}''" by code_simp
  have 9: "p_manifest (paths ?s) = ''/game/manifest.json''" by code_simp
  from readManifest_self_heal [OF 1 2 3 4 5 6 7] 1 2 3 7 8 9 show ?thesis by simp
qed

text \<open>
  C7 as the specification states it fails. The identifier is not one of 36 characters:
  the one that \<open>readManifest\<close> assigns to the manifest \<open>{}\<close> has 32. And the claim does not
  hold of all valid JSON: for the manifest \<open>[]\<close>, with a \<open>JSON.stringify\<close> that writes the
  elements of an array and not its named properties, the identifier is assigned to the
  array in memory, the file is written as \<open>[]\<close> again, and the second load assigns another
  identifier; for the manifest \<open>true\<close> the callback gets \<open>true\<close> as it was parsed.
\<close>

theorem readManifest_uuid_length_counterexample:
  "fst (readManifest (example_host [(''{}'', JObj [])]) (example_state ''{}'' None))
     = Called (Inr (JObj [(''appID'', JStr ''1123456799ab4cdeb0122456789abcde'')]))
   \<and> length ''1123456799ab4cdeb0122456789abcde'' = 32
   \<and> fst (readManifest
        (example_host [(''[]'', JArr [] []),
           (''[]'', JArr [] [(''appID'', JStr ''1123456799ab4cdeb0122456789abcde'')])])
        (example_state ''[]'' None))
     = Called (Inr (JArr [] [(''appID'', JStr ''1123456799ab4cdeb0122456789abcde'')]))
   \<and> files (snd (readManifest
        (example_host [(''[]'', JArr [] []),
           (''[]'', JArr [] [(''appID'', JStr ''1123456799ab4cdeb0122456789abcde'')])])
        (example_state ''[]'' None))) ''/game/manifest.json''
     = Some ''[]''
   \<and> fst (readManifest
        (example_host [(''[]'', JArr [] []),
           (''[]'', JArr [] [(''appID'', JStr ''1123456799ab4cdeb0122456789abcde'')])])
        (snd (readManifest
          (example_host [(''[]'', JArr [] []),
             (''[]'', JArr [] [(''appID'', JStr ''1123456799ab4cdeb0122456789abcde'')])])
          (example_state ''[]'' None))))
     = Called (Inr (JArr [] [(''appID'', JStr ''e0123456689a4bcdbf0133456789abcd'')]))
   \<and> fst (readManifest (example_host [(''true'', JBool True)]) (example_state ''true'' None))
     = Called (Inr (JBool True))"
  by code_simp




subsection \<open>Listing files\<close>

text \<open>
  C10 asks that, for a base directory that does not exist, nothing is raised, the
  synchronous listing returns the empty list, and the asynchronous listing delivers the
  empty list to the callback or else an \<open>end\<close> event and no \<open>file\<close> event. In the code,
  \<open>listFilesSync\<close> does return the empty list, and \<open>listFiles\<close> with a callback calls it
  with the empty list. Without a callback, \<open>listFiles\<close> emits \<open>end\<close> on its emitter \<open>ret\<close> but
  leaves by a \<open>return\<close> with no value, where the branch for an existing directory ends in
  \<open>return ret\<close>: the caller gets \<open>undefined\<close>, so none of its listeners can receive the
  event, and no \<open>end\<close> event is delivered.
\<close>

theorem listFiles_missing_base_no_emitter:
  "listFilesSync example_lister ''/nowhere'' (Some [''js'']) = []
   \<and> listFiles example_lister ''/nowhere'' (Some [''js'']) True
       = \<lparr>returned = False, emitted = [], collected = Some []\<rparr>
   \<and> listFiles example_lister ''/nowhere'' (Some [''js'']) False
       = \<lparr>returned = False, emitted = [EndEvent], collected = None\<rparr>
   \<and> delivered (listFiles example_lister ''/nowhere'' (Some [''js'']) False) = []
   \<and> delivered (listFiles example_lister ''/game'' (Some [''js'']) False)
       = [FileEvent ''a'' ''/game/a.js'' True, EndEvent]"
  by (simp add: example_lister_def listFiles_def listFilesSync_def delivered_def has_ext_def
      entry_of_def substr_def)

end
